theory Spec2Isabelle
  imports Complex_Main "HOL-Library.Sublist"
begin

section \<open>Strings\<close>

text \<open>
  A Python \<^verbatim>\<open>str\<close> is a sequence of Unicode code points, so the text fields of the
  crawler are lists of code points. The selectors, attribute names and site keys that
  the source writes as ASCII literals are given as HOL string literals and converted
  with \<open>ascii\<close>.
\<close>

type_synonym ustring = "nat list"

definition ascii :: "string \<Rightarrow> ustring" where
  "ascii s = map of_char s"

text \<open>
  \<^verbatim>\<open>str.isspace\<close> for one code point: the characters that \<^verbatim>\<open>str.strip()\<close> removes
  when it is called without an argument (U+0009..U+000D, U+001C..U+0020, U+0085,
  U+00A0, U+1680, U+2000..U+200A, U+2028, U+2029, U+202F, U+205F, U+3000).
\<close>

definition isspace :: "nat \<Rightarrow> bool" where
  "isspace c \<longleftrightarrow>
     (9 \<le> c \<and> c \<le> 13) \<or> (28 \<le> c \<and> c \<le> 32) \<or> c = 133 \<or> c = 160 \<or> c = 5760 \<or>
     (8192 \<le> c \<and> c \<le> 8202) \<or> c = 8232 \<or> c = 8233 \<or> c = 8239 \<or> c = 8287 \<or>
     c = 12288"

definition strip :: "ustring \<Rightarrow> ustring" where
  "strip s = rev (dropWhile isspace (rev (dropWhile isspace s)))"

text \<open>Python's \<^verbatim>\<open>a or b\<close> on strings: \<open>a\<close> when it is non-empty, otherwise \<open>b\<close>.\<close>

definition or_else :: "ustring \<Rightarrow> ustring \<Rightarrow> ustring" where
  "or_else a b = (if a \<noteq> [] then a else b)"

text \<open>\<^verbatim>\<open>k in text\<close> on strings: \<open>k\<close> occurs in \<open>text\<close> as a contiguous run.\<close>

fun contains :: "ustring \<Rightarrow> ustring \<Rightarrow> bool" where
  "contains [] k = (k = [])"
| "contains (c # cs) k = (take (length k) (c # cs) = k \<or> contains cs k)"

text \<open>\<^verbatim>\<open>str(n)\<close> and \<^verbatim>\<open>format\<close> of an integer: decimal digits, with a minus sign.\<close>

function digits :: "nat \<Rightarrow> ustring" where
  "digits n = (if n < 10 then [48 + n] else digits (n div 10) @ [48 + n mod 10])"
  by pat_completeness auto
termination
  by (relation "measure id") auto

declare digits.simps [simp del]

definition str_of_int :: "int \<Rightarrow> ustring" where
  "str_of_int i = (if i < 0 then 45 # digits (nat (- i)) else digits (nat i))"

section \<open>The data class\<close>

text \<open>
  \<^verbatim>\<open>NewsItem\<close> of \<^verbatim>\<open>crawler.py\<close>. The default of \<open>crawled_at\<close> reads the wall clock
  when the item is constructed; the model takes the reading as an input of the parser.
\<close>

record NewsItem =
  title :: ustring
  press :: ustring
  pub_time :: ustring
  url :: ustring
  source :: ustring
  crawled_at :: ustring

section \<open>Deduplication\<close>

text \<open>
  \<^verbatim>\<open>MultiSiteCrawler._deduplicate\<close>: one pass over the items with the set \<open>seen\<close> of keys
  and the list \<open>unique\<close> of retained items. \<open>dedup_key\<close> is the expression bound to
  \<^verbatim>\<open>key\<close> in the loop body.
\<close>

definition dedup_key :: "NewsItem \<Rightarrow> ustring" where
  "dedup_key item = (if strip (url item) \<noteq> [] then strip (url item) else strip (title item))"

fun deduplicate_loop :: "NewsItem list \<Rightarrow> ustring set \<Rightarrow> NewsItem list \<Rightarrow> NewsItem list" where
  "deduplicate_loop [] seen unique = unique"
| "deduplicate_loop (item # items) seen unique =
     (let key = dedup_key item in
      if key \<notin> seen then deduplicate_loop items (insert key seen) (unique @ [item])
      else deduplicate_loop items seen unique)"

definition deduplicate :: "NewsItem list \<Rightarrow> NewsItem list" where
  "deduplicate items = deduplicate_loop items {} []"

text \<open>
  The reading of the specification: the record at position \<open>i\<close> is kept exactly when no
  record before it has the same key, and the kept records stay in the order of the input.
\<close>

definition first_occurrences :: "NewsItem list \<Rightarrow> NewsItem list" where
  "first_occurrences items =
     map ((!) items)
       (filter (\<lambda>i. dedup_key (items ! i) \<notin> dedup_key ` set (take i items))
          [0..<length items])"

section \<open>Exceptions\<close>

text \<open>
  The exception classes that the handlers of \<^verbatim>\<open>crawler.py\<close> tell apart.
  \<open>OtherException\<close> stands for any instance of \<^verbatim>\<open>Exception\<close> that has no constructor of
  its own here (a WebDriver failure, a stale element, an encoding error);
  \<open>NonException\<close> for a \<^verbatim>\<open>BaseException\<close> outside \<^verbatim>\<open>Exception\<close>
  (\<^verbatim>\<open>KeyboardInterrupt\<close>, \<^verbatim>\<open>SystemExit\<close>), which \<^verbatim>\<open>except Exception\<close> lets through.
  \<open>ValueError\<close> carries the two values that the message of
  \<^verbatim>\<open>MultiSiteCrawler.__init__\<close> prints: the set of unknown keys and the registered keys.
\<close>

datatype exn =
    TimeoutException
  | NoSuchElementException
  | ValueError "ustring set" "ustring list"
  | KeyError ustring
  | OtherException
  | NonException

definition is_Exception :: "exn \<Rightarrow> bool" where
  "is_Exception e \<longleftrightarrow> e \<noteq> NonException"

section \<open>The loaded page\<close>

text \<open>
  What the parsers read of a WebDriver element: its visible text, its attributes, and for
  each CSS selector the descendants that match it, in document order. The document is an
  element too. \<^verbatim>\<open>find_elements\<close> returns all matches, \<^verbatim>\<open>find_element\<close> the first one
  or raises \<^verbatim>\<open>NoSuchElementException\<close>; \<^verbatim>\<open>get_attribute\<close> returns \<^verbatim>\<open>None\<close> for a missing
  attribute.
\<close>

datatype element =
  Element (elem_text: ustring) (attributes: "(string \<times> ustring) list")
    (matches: "(string \<times> element list) list")

definition find_elements :: "element \<Rightarrow> string \<Rightarrow> element list" where
  "find_elements el selector =
     (case map_of (matches el) selector of None \<Rightarrow> [] | Some es \<Rightarrow> es)"

definition find_element :: "element \<Rightarrow> string \<Rightarrow> exn + element" where
  "find_element el selector =
     (case find_elements el selector of [] \<Rightarrow> Inl NoSuchElementException | e # _ \<Rightarrow> Inr e)"

definition get_attribute :: "element \<Rightarrow> string \<Rightarrow> ustring option" where
  "get_attribute el attr = map_of (attributes el) attr"

text \<open>\<^verbatim>\<open>BaseCrawler.safe_text\<close> and \<^verbatim>\<open>BaseCrawler.safe_attr\<close>.\<close>

definition safe_text :: "element \<Rightarrow> string \<Rightarrow> ustring \<Rightarrow> ustring" where
  "safe_text el selector dflt =
     (case find_element el selector of
        Inr e \<Rightarrow> strip (elem_text e)
      | Inl _ \<Rightarrow> dflt)"

definition safe_attr :: "element \<Rightarrow> string \<Rightarrow> string \<Rightarrow> ustring \<Rightarrow> ustring" where
  "safe_attr el selector attr dflt =
     (case find_element el selector of
        Inr e \<Rightarrow> (case get_attribute e attr of
                    None \<Rightarrow> dflt
                  | Some v \<Rightarrow> or_else v dflt)
      | Inl _ \<Rightarrow> dflt)"

section \<open>The site crawlers\<close>

text \<open>
  The three subclasses of \<^verbatim>\<open>BaseCrawler\<close>, and the instance state that
  \<^verbatim>\<open>BaseCrawler.__init__\<close> sets. \<open>driver\<close> is the field \<^verbatim>\<open>_driver\<close>: the handle of the
  live browser session, or \<open>None\<close>.
\<close>

datatype site = Naver | Daum | Hankyung

record crawler =
  site :: site
  headless :: bool
  wait_sec :: int
  delay_range :: "real \<times> real"
  driver :: "nat option"

definition new_crawler :: "site \<Rightarrow> bool \<Rightarrow> int \<Rightarrow> crawler" where
  "new_crawler cls hl ws =
     \<lparr>site = cls, headless = hl, wait_sec = ws, delay_range = (1.2, 2.5), driver = None\<rparr>"

fun SITE_KEY :: "site \<Rightarrow> ustring" where
  "SITE_KEY Naver = ascii ''naver''"
| "SITE_KEY Daum = ascii ''daum''"
| "SITE_KEY Hankyung = ascii ''hankyung''"

text \<open>
  \<^verbatim>\<open>build_url\<close> of the three classes. \<^verbatim>\<open>urllib.parse.quote_plus\<close> is a library function
  and a parameter here; it raises on a keyword that UTF-8 cannot encode. The templates
  \<^verbatim>\<open>_BASE\<close> are filled by concatenation.
\<close>

definition build_url ::
  "crawler \<Rightarrow> (ustring \<Rightarrow> exn + ustring) \<Rightarrow> ustring \<Rightarrow> int \<Rightarrow> exn + ustring" where
  "build_url self quote_plus keyword page =
     (case site self of
        Naver \<Rightarrow>
          (let start = (page - 1) * 10 + 1 in
           case quote_plus keyword of
             Inl e \<Rightarrow> Inl e
           | Inr kw \<Rightarrow>
               Inr (ascii ''https://search.naver.com/search.naver?where=news&query='' @ kw
                    @ ascii ''&start='' @ str_of_int start @ ascii ''&sort=1''))
      | Daum \<Rightarrow>
          (case quote_plus keyword of
             Inl e \<Rightarrow> Inl e
           | Inr kw \<Rightarrow>
               Inr (ascii ''https://search.daum.net/search?w=news&q='' @ kw
                    @ ascii ''&p='' @ str_of_int page @ ascii ''&spacing=0&sort=recency''))
      | Hankyung \<Rightarrow>
          (case quote_plus keyword of
             Inl e \<Rightarrow> Inl e
           | Inr kw \<Rightarrow>
               Inr (ascii ''https://www.hankyung.com/search?search_str='' @ kw
                    @ ascii ''&page='' @ str_of_int page @ ascii ''&type=news&sort=date'')))"

fun wait_selector :: "site \<Rightarrow> string" where
  "wait_selector Naver = ''ul.list_news > li''"
| "wait_selector Daum = ''div#newsSearchMainList, ul.list_news, div.wrap_g''"
| "wait_selector Hankyung = ''ul.list-news, div.news-list, article.news-item''"

subsection \<open>Parsing a page\<close>

text \<open>
  The two Korean literals of the press fallbacks, as code points: the string for
  "unknown" that \<^verbatim>\<open>NaverCrawler\<close> and \<^verbatim>\<open>DaumCrawler\<close> use, and the name of the
  newspaper that \<^verbatim>\<open>HankyungCrawler\<close> uses.
\<close>

definition unknown_press :: ustring where
  "unknown_press = [50508, 32, 49688, 32, 50630, 51020]"

definition hankyung_press :: ustring where
  "hankyung_press = [54620, 44397, 44221, 51228]"

text \<open>
  \<^verbatim>\<open>NaverCrawler._extract_time\<close>; the markers are the four literals of its list
  (U+C804, ".", U+C2DC U+AC04, U+C77C).
\<close>

definition time_markers :: "ustring list" where
  "time_markers = [[51204], [46], [49884, 44036], [51068]]"

fun extract_time_loop :: "element list \<Rightarrow> ustring option" where
  "extract_time_loop [] = None"
| "extract_time_loop (s # spans) =
     (let text = strip (elem_text s) in
      if list_ex (contains text) time_markers then Some text
      else extract_time_loop spans)"

definition extract_time :: "element \<Rightarrow> ustring" where
  "extract_time card' =
     (let spans = find_elements card' ''span.info'' in
      case extract_time_loop spans of
        Some text \<Rightarrow> text
      | None \<Rightarrow> (if spans \<noteq> [] then strip (elem_text (last spans)) else []))"

text \<open>
  The loops over the cards. \<open>now\<close> is the clock reading that \<^verbatim>\<open>NewsItem\<close> stores in
  \<open>crawled_at\<close>. A card without a title is skipped by \<^verbatim>\<open>continue\<close>.
\<close>

fun naver_cards :: "ustring \<Rightarrow> element list \<Rightarrow> NewsItem list" where
  "naver_cards now [] = []"
| "naver_cards now (card' # cards) =
     (let title = safe_text card' ''a.news_tit'' [] in
      if title = [] then naver_cards now cards
      else
        let press = or_else (safe_text card' ''a.info.press'' []) (safe_text card' ''a.press'' []);
            pub_time = extract_time card';
            url = safe_attr card' ''a.news_tit'' ''href'' []
        in \<lparr>title = title, press = or_else press unknown_press, pub_time = pub_time,
            url = url, source = SITE_KEY Naver, crawled_at = now\<rparr>
           # naver_cards now cards)"

fun daum_cards :: "ustring \<Rightarrow> element list \<Rightarrow> NewsItem list" where
  "daum_cards now [] = []"
| "daum_cards now (card' # cards) =
     (let title = or_else (safe_text card' ''a.tit_main'' [])
                    (or_else (safe_text card' ''a.link_txt'' [])
                      (or_else (safe_text card' ''a.item-title'' [])
                        (safe_text card' ''a.tit_g'' [])))
      in
      if title = [] then daum_cards now cards
      else
        let url = or_else (safe_attr card' ''a.tit_main'' ''href'' [])
                    (or_else (safe_attr card' ''a.link_txt'' ''href'' [])
                      (safe_attr card' ''a.item-title'' ''href'' []));
            press = or_else (safe_text card' ''span.name_cp'' [])
                      (or_else (safe_text card' ''span.txt_cp'' [])
                        (safe_text card' ''span.info_txt'' []));
            pub_time = or_else (safe_text card' ''span.num_date'' [])
                         (or_else (safe_text card' ''span.date_txt'' [])
                           (safe_text card' ''span.info_date'' []))
        in \<lparr>title = title, press = or_else press unknown_press, pub_time = pub_time,
            url = url, source = SITE_KEY Daum, crawled_at = now\<rparr>
           # daum_cards now cards)"

definition startswith :: "ustring \<Rightarrow> ustring \<Rightarrow> bool" where
  "startswith s p \<longleftrightarrow> take (length p) s = p"

fun hankyung_cards :: "ustring \<Rightarrow> element list \<Rightarrow> NewsItem list" where
  "hankyung_cards now [] = []"
| "hankyung_cards now (card' # cards) =
     (let title = or_else (safe_text card' ''.news-tit'' [])
                    (or_else (safe_text card' ''h3.title a'' [])
                      (or_else (safe_text card' ''a.tit'' [])
                        (safe_text card' ''.tit'' [])))
      in
      if title = [] then hankyung_cards now cards
      else
        let url0 = or_else (safe_attr card' ''.news-tit'' ''href'' [])
                     (or_else (safe_attr card' ''h3.title a'' ''href'' [])
                       (safe_attr card' ''a.tit'' ''href'' []));
            url = (if url0 \<noteq> [] \<and> startswith url0 (ascii ''/'')
                   then ascii ''https://www.hankyung.com'' @ url0 else url0);
            press = or_else (safe_text card' ''span.author'' [])
                      (or_else (safe_text card' ''span.reporter'' []) hankyung_press);
            pub_time = or_else (safe_text card' ''span.date'' [])
                         (or_else (safe_text card' ''time'' [])
                           (safe_attr card' ''time'' ''datetime'' []))
        in \<lparr>title = title, press = press, pub_time = pub_time,
            url = url, source = SITE_KEY Hankyung, crawled_at = now\<rparr>
           # hankyung_cards now cards)"

text \<open>
  The selector loop of \<^verbatim>\<open>DaumCrawler.parse_page\<close> and \<^verbatim>\<open>HankyungCrawler.parse_page\<close>:
  the matches of the first selector that has any; after the last selector \<open>cards\<close> holds
  that selector's (empty) matches.
\<close>

fun select_cards :: "element \<Rightarrow> string list \<Rightarrow> element list \<Rightarrow> element list" where
  "select_cards document [] cards = cards"
| "select_cards document (sel # sels) cards =
     (let cards' = find_elements document sel in
      if cards' \<noteq> [] then cards' else select_cards document sels cards')"

text \<open>
  \<^verbatim>\<open>parse_page\<close>. The page that the driver shows is either a document or, when a WebDriver
  call made while parsing raises something that \<^verbatim>\<open>safe_text\<close> and \<^verbatim>\<open>safe_attr\<close> do not
  catch, that exception: \<^verbatim>\<open>parse_page\<close> then raises it and its partial list is lost.
\<close>

definition parse_page :: "crawler \<Rightarrow> exn + element \<Rightarrow> ustring \<Rightarrow> exn + NewsItem list" where
  "parse_page self page now =
     (case page of
        Inl e \<Rightarrow> Inl e
      | Inr document \<Rightarrow>
          (case site self of
             Naver \<Rightarrow> Inr (naver_cards now (find_elements document ''ul.list_news > li.bx''))
           | Daum \<Rightarrow>
               Inr (daum_cards now
                 (select_cards document [''li.g_item'', ''div.cont_inner'', ''li[data-docid]''] []))
           | Hankyung \<Rightarrow>
               Inr (hankyung_cards now
                 (select_cards document [''li.item'', ''li.news-item'', ''article.list-item''] []))))"

section \<open>The crawl engine\<close>

text \<open>
  What one run does to the outside world, in order: the driver factory is called, the
  driver navigates, the wait polls for the selector, the page is parsed, the run sleeps
  for \<^verbatim>\<open>random.uniform(*delay_range)\<close> seconds, the driver quits. The \<^verbatim>\<open>print\<close> calls
  are left out.
\<close>

datatype event =
    BuildDriver bool
  | is_Get: Get ustring
  | WaitUntil string int
  | ParsePage
  | is_Sleep: Sleep "real \<times> real"
  | is_Quit: Quit nat

text \<open>
  What the outside world does when page \<open>p\<close> of a site is visited: whether
  \<^verbatim>\<open>driver.get\<close> raises, whether \<^verbatim>\<open>wait.until\<close> raises (\<open>TimeoutException\<close> when the
  selector never appears), the page that the parser then sees, the clock, and whether the
  pacing sleep raises. \<^verbatim>\<open>build_driver\<close> returns a driver handle or raises.
  \<^verbatim>\<open>driver.quit()\<close> returns normally (Selenium's Chrome driver swallows the errors of
  shutting down).
\<close>

record page_world =
  get_raises :: "exn option"
  wait_raises :: "exn option"
  shown :: "exn + element"
  clock :: ustring
  sleep_raises :: "exn option"

record site_world =
  build_driver_result :: "exn + nat"
  page_at :: "int \<Rightarrow> page_world"

text \<open>
  The body of the \<^verbatim>\<open>for\<close> loop of \<^verbatim>\<open>BaseCrawler.crawl\<close> for one page. The state is
  \<open>results\<close> and the trace of events; the first component of the result is the exception
  that leaves the loop body, if any. A \<open>TimeoutException\<close> of the wait is handled by
  \<^verbatim>\<open>continue\<close>; an \<^verbatim>\<open>Exception\<close> of \<^verbatim>\<open>parse_page\<close> by \<^verbatim>\<open>items = []\<close>.
\<close>

definition extend_and_sleep ::
  "crawler \<Rightarrow> page_world \<Rightarrow> NewsItem list \<Rightarrow> NewsItem list \<Rightarrow> event list
     \<Rightarrow> exn option \<times> NewsItem list \<times> event list" where
  "extend_and_sleep self w results items tr =
     (let results = results @ items;
          tr = tr @ [Sleep (delay_range self)]
      in case sleep_raises w of
           Some e \<Rightarrow> (Some e, results, tr)
         | None \<Rightarrow> (None, results, tr))"

definition crawl_page ::
  "crawler \<Rightarrow> (ustring \<Rightarrow> exn + ustring) \<Rightarrow> (int \<Rightarrow> page_world) \<Rightarrow> ustring \<Rightarrow> int
     \<Rightarrow> NewsItem list \<times> event list \<Rightarrow> exn option \<times> NewsItem list \<times> event list" where
  "crawl_page self quote_plus world keyword page st =
     (case st of (results, tr) \<Rightarrow>
      (case build_url self quote_plus keyword page of
         Inl e \<Rightarrow> (Some e, results, tr)
       | Inr u \<Rightarrow>
          (let w = world page; tr = tr @ [Get u] in
           case get_raises w of
             Some e \<Rightarrow> (Some e, results, tr)
           | None \<Rightarrow>
              (let tr = tr @ [WaitUntil (wait_selector (site self)) (wait_sec self)] in
               case wait_raises w of
                 Some e \<Rightarrow>
                   if e = TimeoutException then (None, results, tr)
                   else (Some e, results, tr)
               | None \<Rightarrow>
                  (let tr = tr @ [ParsePage] in
                   case parse_page self (shown w) (clock w) of
                     Inl e \<Rightarrow>
                       if is_Exception e then extend_and_sleep self w results [] tr
                       else (Some e, results, tr)
                   | Inr items \<Rightarrow> extend_and_sleep self w results items tr)))))"

fun crawl_pages ::
  "crawler \<Rightarrow> (ustring \<Rightarrow> exn + ustring) \<Rightarrow> (int \<Rightarrow> page_world) \<Rightarrow> ustring \<Rightarrow> int list
     \<Rightarrow> NewsItem list \<times> event list \<Rightarrow> exn option \<times> NewsItem list \<times> event list" where
  "crawl_pages self quote_plus world keyword [] st = (None, st)"
| "crawl_pages self quote_plus world keyword (page # pages) st =
     (case crawl_page self quote_plus world keyword page st of
        (Some e, st') \<Rightarrow> (Some e, st')
      | (None, st') \<Rightarrow> crawl_pages self quote_plus world keyword pages st')"

text \<open>
  \<^verbatim>\<open>BaseCrawler.crawl\<close>. \<^verbatim>\<open>build_driver\<close> is called before the \<^verbatim>\<open>try\<close>, so its exception
  leaves \<^verbatim>\<open>crawl\<close>. The \<^verbatim>\<open>except Exception\<close> clause turns an exception of the loop into a
  normal return of \<open>results\<close>; any other exception propagates after the \<^verbatim>\<open>finally\<close>
  clause. The result is what \<^verbatim>\<open>crawl\<close> returns or raises, the crawler afterwards, and
  the events of the run.
\<close>

definition crawl ::
  "crawler \<Rightarrow> (ustring \<Rightarrow> exn + ustring) \<Rightarrow> site_world \<Rightarrow> ustring \<Rightarrow> int
     \<Rightarrow> (exn + NewsItem list) \<times> crawler \<times> event list" where
  "crawl self quote_plus world keyword pages =
     (case build_driver_result world of
        Inl e \<Rightarrow> (Inl e, self, [BuildDriver (headless self)])
      | Inr d \<Rightarrow>
         (let self = self\<lparr>driver := Some d\<rparr> in
          case crawl_pages self quote_plus (page_at world) keyword [1..pages]
                 ([], [BuildDriver (headless self)]) of
            (raised, results, tr) \<Rightarrow>
              (let (self, tr) =
                     (case driver self of
                        Some d' \<Rightarrow> (self\<lparr>driver := None\<rparr>, tr @ [Quit d'])
                      | None \<Rightarrow> (self, tr))
               in (case raised of
                     None \<Rightarrow> Inr results
                   | Some e \<Rightarrow> if is_Exception e then Inr results else Inl e,
                   self, tr))))"

section \<open>The multi-site manager\<close>

record MultiSiteCrawler =
  crawlers :: "crawler list"

definition REGISTRY :: "(ustring \<times> site) list" where
  "REGISTRY = [(ascii ''naver'', Naver), (ascii ''daum'', Daum), (ascii ''hankyung'', Hankyung)]"

text \<open>
  The list comprehension of \<^verbatim>\<open>__init__\<close>; a key that the registry lacks raises
  \<^verbatim>\<open>KeyError\<close> at the subscript.
\<close>

fun make_crawlers :: "ustring list \<Rightarrow> bool \<Rightarrow> int \<Rightarrow> exn + crawler list" where
  "make_crawlers [] hl ws = Inr []"
| "make_crawlers (k # ks) hl ws =
     (case map_of REGISTRY k of
        None \<Rightarrow> Inl (KeyError k)
      | Some cls \<Rightarrow>
          (case make_crawlers ks hl ws of
             Inl e \<Rightarrow> Inl e
           | Inr cs \<Rightarrow> Inr (new_crawler cls hl ws # cs)))"

text \<open>
  \<^verbatim>\<open>MultiSiteCrawler.__init__\<close>. \<open>sites\<close> is \<open>None\<close> or a list of keys;
  \<^verbatim>\<open>sites or list(...)\<close> takes the registry's keys for \<open>None\<close> and for the empty list.
\<close>

definition MultiSiteCrawler_init ::
  "ustring list option \<Rightarrow> bool \<Rightarrow> int \<Rightarrow> exn + MultiSiteCrawler" where
  "MultiSiteCrawler_init sites hl ws =
     (let target_keys =
            (case sites of
               None \<Rightarrow> map fst REGISTRY
             | Some ks \<Rightarrow> if ks \<noteq> [] then ks else map fst REGISTRY);
          invalid = set target_keys - set (map fst REGISTRY)
      in if invalid \<noteq> {} then Inl (ValueError invalid (map fst REGISTRY))
         else case make_crawlers target_keys hl ws of
                Inl e \<Rightarrow> Inl e
              | Inr cs \<Rightarrow> Inr \<lparr>crawlers = cs\<rparr>)"

text \<open>
  \<^verbatim>\<open>MultiSiteCrawler.crawl\<close>: the loop over the crawlers, then the deduplication. The
  \<open>i\<close>-th crawler of the list meets the world \<open>worlds i\<close>. An exception that leaves a
  site's \<^verbatim>\<open>crawl\<close> leaves this method too.
\<close>

fun crawl_sites ::
  "crawler list \<Rightarrow> (ustring \<Rightarrow> exn + ustring) \<Rightarrow> (nat \<Rightarrow> site_world) \<Rightarrow> nat \<Rightarrow> ustring \<Rightarrow> int
     \<Rightarrow> NewsItem list \<times> event list \<Rightarrow> exn option \<times> NewsItem list \<times> event list" where
  "crawl_sites [] quote_plus worlds i keyword pages st = (None, st)"
| "crawl_sites (c # cs) quote_plus worlds i keyword pages st =
     (case st of (all_items, tr) \<Rightarrow>
      (case crawl c quote_plus (worlds i) keyword pages of
         (Inl e, _, tr') \<Rightarrow> (Some e, all_items, tr @ tr')
       | (Inr items, _, tr') \<Rightarrow>
           crawl_sites cs quote_plus worlds (Suc i) keyword pages (all_items @ items, tr @ tr')))"

definition MultiSiteCrawler_crawl ::
  "MultiSiteCrawler \<Rightarrow> (ustring \<Rightarrow> exn + ustring) \<Rightarrow> (nat \<Rightarrow> site_world) \<Rightarrow> ustring \<Rightarrow> int
     \<Rightarrow> (exn + NewsItem list) \<times> event list" where
  "MultiSiteCrawler_crawl m quote_plus worlds keyword pages_per_site =
     (case crawl_sites (crawlers m) quote_plus worlds 0 keyword pages_per_site ([], []) of
        (Some e, _, tr) \<Rightarrow> (Inl e, tr)
      | (None, all_items, tr) \<Rightarrow> (Inr (deduplicate all_items), tr))"

text \<open>
  Step 1 of \<^verbatim>\<open>run_pipeline\<close> in \<^verbatim>\<open>main.py\<close>: construct the manager with the default
  \<open>headless\<close> and \<open>wait_sec\<close>, then crawl.
\<close>

definition run_pipeline_crawl ::
  "ustring list option \<Rightarrow> (ustring \<Rightarrow> exn + ustring) \<Rightarrow> (nat \<Rightarrow> site_world) \<Rightarrow> ustring \<Rightarrow> int
     \<Rightarrow> (exn + NewsItem list) \<times> event list" where
  "run_pipeline_crawl sites quote_plus worlds keyword pages_per_site =
     (case MultiSiteCrawler_init sites True 8 of
        Inl e \<Rightarrow> (Inl e, [])
      | Inr m \<Rightarrow> MultiSiteCrawler_crawl m quote_plus worlds keyword pages_per_site)"

section \<open>Page outcomes\<close>

text \<open>
  The outcomes of a page visit that the statements below refer to. A page times out when
  navigation succeeds and the wait raises \<open>TimeoutException\<close>. A page is ready when
  navigation and wait succeed, parsing returns or raises an \<^verbatim>\<open>Exception\<close>, and the
  pacing sleep returns. A page is fatal with \<open>e\<close> when navigation, or the wait with
  something other than a timeout, raises the \<^verbatim>\<open>Exception\<close> \<open>e\<close>.
\<close>

definition timed_out :: "page_world \<Rightarrow> bool" where
  "timed_out w \<longleftrightarrow> get_raises w = None \<and> wait_raises w = Some TimeoutException"

definition ready :: "crawler \<Rightarrow> page_world \<Rightarrow> bool" where
  "ready self w \<longleftrightarrow>
     get_raises w = None \<and> wait_raises w = None \<and> sleep_raises w = None \<and>
     (case parse_page self (shown w) (clock w) of Inl e \<Rightarrow> is_Exception e | Inr _ \<Rightarrow> True)"

definition benign :: "crawler \<Rightarrow> page_world \<Rightarrow> bool" where
  "benign self w \<longleftrightarrow> timed_out w \<or> ready self w"

definition fatal :: "page_world \<Rightarrow> exn \<Rightarrow> bool" where
  "fatal w e \<longleftrightarrow>
     is_Exception e \<and>
     (get_raises w = Some e \<or>
      (get_raises w = None \<and> wait_raises w = Some e \<and> e \<noteq> TimeoutException))"

text \<open>The records that parsing the page yields: none when \<^verbatim>\<open>parse_page\<close> raises.\<close>

definition extracted :: "crawler \<Rightarrow> page_world \<Rightarrow> NewsItem list" where
  "extracted self w =
     (case parse_page self (shown w) (clock w) of Inr items \<Rightarrow> items | Inl _ \<Rightarrow> [])"

text \<open>The urls of the navigations in a trace, in order.\<close>

fun gets :: "event list \<Rightarrow> ustring list" where
  "gets [] = []"
| "gets (Get u # tr) = u # gets tr"
| "gets (_ # tr) = gets tr"

text \<open>
  The events of visiting a page that times out or is ready, at the url \<open>u\<close>.
\<close>

definition page_events :: "crawler \<Rightarrow> ustring \<Rightarrow> page_world \<Rightarrow> event list" where
  "page_events self u w =
     [Get u, WaitUntil (wait_selector (site self)) (wait_sec self)]
     @ (if timed_out w then [] else [ParsePage, Sleep (delay_range self)])"

text \<open>
  The runs of the crawlers of a manager, each taken on its own: the \<open>j\<close>-th crawler in
  the world \<open>worlds j\<close>, counting from \<open>i\<close>.
\<close>

definition site_runs ::
  "nat \<Rightarrow> crawler list \<Rightarrow> (ustring \<Rightarrow> exn + ustring) \<Rightarrow> (nat \<Rightarrow> site_world) \<Rightarrow> ustring \<Rightarrow> int
     \<Rightarrow> ((exn + NewsItem list) \<times> crawler \<times> event list) list" where
  "site_runs i cs quote_plus worlds keyword pages =
     map (\<lambda>(j, c). crawl c quote_plus (worlds j) keyword pages) (List.enumerate i cs)"

section \<open>Sample pages and worlds\<close>

text \<open>
  A result page with one card per title, for the selectors of a site's parser; pages
  that load, time out and fail; and a site whose second page times out or fails.
\<close>

definition sample_card :: "string \<Rightarrow> ustring \<Rightarrow> element" where
  "sample_card title_selector t = Element [] [] [(title_selector, [Element t [] []])]"

fun sample_page :: "site \<Rightarrow> ustring list \<Rightarrow> element" where
  "sample_page Naver ts =
     Element [] [] [(''ul.list_news > li.bx'', map (sample_card ''a.news_tit'') ts)]"
| "sample_page Daum ts = Element [] [] [(''li.g_item'', map (sample_card ''a.tit_main'') ts)]"
| "sample_page Hankyung ts = Element [] [] [(''li.item'', map (sample_card ''.news-tit'') ts)]"

definition loaded :: "exn + element \<Rightarrow> page_world" where
  "loaded page =
     \<lparr>get_raises = None, wait_raises = None, shown = page, clock = ascii ''2024-01-01 00:00:00'',
      sleep_raises = None\<rparr>"

definition never_ready :: page_world where
  "never_ready =
     \<lparr>get_raises = None, wait_raises = Some TimeoutException, shown = Inl OtherException,
      clock = [], sleep_raises = None\<rparr>"

definition session_lost :: page_world where
  "session_lost =
     \<lparr>get_raises = Some OtherException, wait_raises = Some OtherException,
      shown = Inl OtherException, clock = [], sleep_raises = Some OtherException\<rparr>"

definition sample_site :: "site \<Rightarrow> page_world \<Rightarrow> site_world" where
  "sample_site cls second =
     \<lparr>build_driver_result = Inr 7,
      page_at = (\<lambda>p. if p = 2 then second
                     else loaded (Inr (sample_page cls [SITE_KEY cls @ str_of_int p])))\<rparr>"

definition sample_worlds :: "nat \<Rightarrow> site_world" where
  "sample_worlds j =
     (if j = 0 then sample_site Naver session_lost else sample_site Daum never_ready)"

section \<open>Properties of deduplication\<close>

lemma deduplicate_loop_unique:
  "deduplicate_loop items seen unique = unique @ deduplicate_loop items seen []"
proof (induction items arbitrary: seen unique)
  case Nil
  show ?case by simp
next
  case (Cons item items)
  have a: "deduplicate_loop items (insert (dedup_key item) seen) (unique @ [item]) =
           unique @ item # deduplicate_loop items (insert (dedup_key item) seen) []"
    using Cons.IH [of "insert (dedup_key item) seen" "unique @ [item]"] by simp
  have b: "deduplicate_loop items (insert (dedup_key item) seen) [item] =
           item # deduplicate_loop items (insert (dedup_key item) seen) []"
    using Cons.IH [of "insert (dedup_key item) seen" "[item]"] by simp
  show ?case
    using a b Cons.IH [of seen unique] by (simp add: Let_def)
qed

lemma deduplicate_loop_append:
  "deduplicate_loop (xs @ ys) seen unique =
   deduplicate_loop ys (seen \<union> dedup_key ` set xs) (deduplicate_loop xs seen unique)"
proof (induction xs arbitrary: seen unique)
  case Nil
  show ?case by simp
next
  case (Cons x xs)
  have "insert (dedup_key x) seen \<union> dedup_key ` set xs = seen \<union> dedup_key ` set (x # xs)"
    by auto
  moreover have "dedup_key x \<in> seen \<Longrightarrow> seen \<union> dedup_key ` set xs = seen \<union> dedup_key ` set (x # xs)"
    by auto
  ultimately show ?case
    using Cons.IH by (simp add: Let_def)
qed

lemma deduplicate_snoc:
  "deduplicate (xs @ [r]) =
   (if dedup_key r \<in> dedup_key ` set xs then deduplicate xs else deduplicate xs @ [r])"
  by (simp add: deduplicate_def deduplicate_loop_append Let_def)

lemma first_occurrences_snoc:
  "first_occurrences (xs @ [r]) =
   (if dedup_key r \<in> dedup_key ` set xs then first_occurrences xs
    else first_occurrences xs @ [r])"
proof -
  let ?P = "\<lambda>zs i. dedup_key (zs ! i) \<notin> dedup_key ` set (take i zs)"
  have f: "filter (?P (xs @ [r])) [0..<length xs] = filter (?P xs) [0..<length xs]"
    by (rule filter_cong) (simp_all add: nth_append)
  have m: "map ((!) (xs @ [r])) (filter (?P xs) [0..<length xs]) =
           map ((!) xs) (filter (?P xs) [0..<length xs])"
    by (rule map_cong) (simp_all add: nth_append)
  show ?thesis
    using f m by (simp add: first_occurrences_def)
qed

lemma deduplicate_first_occurrences: "deduplicate items = first_occurrences items"
proof (induction items rule: rev_induct)
  case Nil
  show ?case by (simp add: deduplicate_def first_occurrences_def)
next
  case (snoc r xs)
  then show ?case by (simp add: deduplicate_snoc first_occurrences_snoc)
qed

lemma deduplicate_subseq: "subseq (deduplicate items) items"
proof (induction items rule: rev_induct)
  case Nil
  show ?case by (simp add: deduplicate_def)
next
  case (snoc r xs)
  have "subseq (deduplicate xs) (xs @ [r])"
    using snoc.IH by (metis subseq_order.order_trans subseq_rev_drop_many subseq_order.order_refl)
  moreover have "subseq (deduplicate xs @ [r]) (xs @ [r])"
    using snoc.IH by (simp add: list_emb_append_mono)
  ultimately show ?case by (simp add: deduplicate_snoc)
qed

lemma deduplicate_keys: "dedup_key ` set (deduplicate items) = dedup_key ` set items"
proof (induction items rule: rev_induct)
  case Nil
  show ?case by (simp add: deduplicate_def)
next
  case (snoc r xs)
  then show ?case by (auto simp: deduplicate_snoc)
qed

lemma deduplicate_distinct: "distinct (map dedup_key (deduplicate items))"
proof (induction items rule: rev_induct)
  case Nil
  show ?case by (simp add: deduplicate_def)
next
  case (snoc r xs)
  then show ?case
    using deduplicate_keys [of xs] by (simp add: deduplicate_snoc)
qed

text \<open>
  Claim C1. Deduplication is order-preserving and first-seen-wins: the result consists of
  exactly the records that have no earlier record with the same key (the trimmed url if
  that is non-empty, otherwise the trimmed title), in their original order and unchanged.
  So it is a subsequence of the input, no two retained records share a key, and every key
  of the input is still represented.
\<close>

theorem deduplicate_first_seen_wins:
  "deduplicate items =
     map ((!) items)
       (filter (\<lambda>i. dedup_key (items ! i) \<notin> dedup_key ` set (take i items))
          [0..<length items])
   \<and> subseq (deduplicate items) items
   \<and> distinct (map dedup_key (deduplicate items))
   \<and> dedup_key ` set (deduplicate items) = dedup_key ` set items
   \<and> dedup_key item = (if strip (url item) \<noteq> [] then strip (url item) else strip (title item))"
proof -
  have "deduplicate items = first_occurrences items"
    by (rule deduplicate_first_occurrences)
  then have "deduplicate items =
     map ((!) items)
       (filter (\<lambda>i. dedup_key (items ! i) \<notin> dedup_key ` set (take i items))
          [0..<length items])"
    by (simp only: first_occurrences_def)
  moreover have "dedup_key item =
     (if strip (url item) \<noteq> [] then strip (url item) else strip (title item))"
    by (simp only: dedup_key_def)
  ultimately show ?thesis
    using deduplicate_subseq [of items] deduplicate_distinct [of items]
      deduplicate_keys [of items]
    by blast
qed

text \<open>
  Claim C10. Url-derived and title-derived keys live in one key space: a record whose
  trimmed url is empty is dropped whenever its trimmed title equals the key of an earlier
  record, whichever field that key came from. Dropped means that the result is the one
  obtained without the record.
\<close>

theorem deduplicate_shared_key_space:
  "strip (url r) = [] \<Longrightarrow> strip (title r) \<in> dedup_key ` set xs \<Longrightarrow>
   deduplicate (xs @ r # ys) = deduplicate (xs @ ys)"
proof -
  assume u: "strip (url r) = []" and t: "strip (title r) \<in> dedup_key ` set xs"
  have k: "dedup_key r \<in> {} \<union> dedup_key ` set xs"
    using u t by (simp add: dedup_key_def)
  have "deduplicate_loop (r # ys) ({} \<union> dedup_key ` set xs) (deduplicate_loop xs {} []) =
        deduplicate_loop ys ({} \<union> dedup_key ` set xs) (deduplicate_loop xs {} [])"
    using k by (simp add: Let_def)
  then show ?thesis
    by (simp only: deduplicate_def deduplicate_loop_append)
qed

theorem deduplicate_shared_key_space_witness:
  "strip (url \<lparr>title = ascii ''X'', press = [], pub_time = [], url = [], source = ascii ''daum'',
       crawled_at = []\<rparr>) = []
   \<and> strip (title \<lparr>title = ascii ''X'', press = [], pub_time = [], url = [],
       source = ascii ''daum'', crawled_at = []\<rparr>)
     \<in> dedup_key ` set [\<lparr>title = ascii ''T'', press = [], pub_time = [], url = ascii ''X'',
       source = ascii ''naver'', crawled_at = []\<rparr>]
   \<and> deduplicate ([\<lparr>title = ascii ''T'', press = [], pub_time = [], url = ascii ''X'',
         source = ascii ''naver'', crawled_at = []\<rparr>]
       @ \<lparr>title = ascii ''X'', press = [], pub_time = [], url = [], source = ascii ''daum'',
         crawled_at = []\<rparr> # [])
     = [\<lparr>title = ascii ''T'', press = [], pub_time = [], url = ascii ''X'',
         source = ascii ''naver'', crawled_at = []\<rparr>]"
proof -
  let ?a = "\<lparr>title = ascii ''T'', press = [], pub_time = [], url = ascii ''X'',
    source = ascii ''naver'', crawled_at = []\<rparr>"
  let ?r = "\<lparr>title = ascii ''X'', press = [], pub_time = [], url = [], source = ascii ''daum'',
    crawled_at = []\<rparr>"
  have u: "strip (url ?r) = []"
    by (simp add: strip_def)
  have t: "strip (title ?r) \<in> dedup_key ` set [?a]"
    by (simp add: strip_def dedup_key_def ascii_def isspace_def)
  have "deduplicate ([?a] @ ?r # []) = deduplicate ([?a] @ [])"
    using deduplicate_shared_key_space [OF u t] .
  moreover have "deduplicate ([?a] @ []) = [?a]"
    by (simp add: deduplicate_def)
  ultimately show ?thesis
    using u t by simp
qed

section \<open>Properties of the crawl engine\<close>

lemma build_url_driver [simp]: "build_url (self\<lparr>driver := d\<rparr>) qp kw p = build_url self qp kw p"
  by (simp add: build_url_def)

lemma parse_page_driver [simp]: "parse_page (self\<lparr>driver := d\<rparr>) page now = parse_page self page now"
  by (cases page) (simp_all add: parse_page_def)

lemma ready_driver [simp]: "ready (self\<lparr>driver := d\<rparr>) w = ready self w"
  by (simp add: ready_def)

lemma benign_driver [simp]: "benign (self\<lparr>driver := d\<rparr>) w = benign self w"
  by (simp add: benign_def)

lemma extracted_driver [simp]: "extracted (self\<lparr>driver := d\<rparr>) w = extracted self w"
  by (simp add: extracted_def)

lemma page_events_driver [simp]: "page_events (self\<lparr>driver := d\<rparr>) u w = page_events self u w"
  by (simp add: page_events_def)

lemma build_url_ex:
  "qp kw = Inr k \<Longrightarrow> \<exists>u. build_url self qp kw p = Inr u"
  unfolding build_url_def Let_def by (simp split: site.split)

lemma build_url_returns:
  assumes "qp kw = Inr k"
  shows "build_url self qp kw p = Inr (projr (build_url self qp kw p))"
proof -
  obtain u where "build_url self qp kw p = Inr u"
    using build_url_ex [of qp kw k self p] assms by blast
  then show ?thesis by simp
qed

lemma crawl_page_timed_out:
  "build_url self qp kw p = Inr u \<Longrightarrow> timed_out (world p) \<Longrightarrow>
   crawl_page self qp world kw p (results, tr) =
     (None, results, tr @ [Get u, WaitUntil (wait_selector (site self)) (wait_sec self)])"
  by (simp add: crawl_page_def timed_out_def Let_def)

lemma crawl_page_ready:
  "build_url self qp kw p = Inr u \<Longrightarrow> ready self (world p) \<Longrightarrow>
   crawl_page self qp world kw p (results, tr) =
     (None, results @ extracted self (world p),
      tr @ [Get u, WaitUntil (wait_selector (site self)) (wait_sec self), ParsePage,
            Sleep (delay_range self)])"
  unfolding crawl_page_def ready_def extracted_def extend_and_sleep_def Let_def
  by (cases "parse_page self (shown (world p)) (clock (world p))") simp_all

lemma crawl_page_fatal:
  "build_url self qp kw p = Inr u \<Longrightarrow> fatal (world p) e \<Longrightarrow>
   crawl_page self qp world kw p (results, tr) =
     (Some e, results,
      tr @ Get u # (if get_raises (world p) = None
                    then [WaitUntil (wait_selector (site self)) (wait_sec self)] else []))"
  unfolding crawl_page_def fatal_def Let_def
  by (cases "get_raises (world p)") auto

lemma crawl_page_benign:
  assumes "qp kw = Inr k" "benign self (world p)"
  shows "crawl_page self qp world kw p (results, tr) =
     (None, results @ (if timed_out (world p) then [] else extracted self (world p)),
      tr @ page_events self (projr (build_url self qp kw p)) (world p))"
proof -
  have u: "build_url self qp kw p = Inr (projr (build_url self qp kw p))"
    using assms(1) by (rule build_url_returns)
  show ?thesis
  proof (cases "timed_out (world p)")
    case True
    have "crawl_page self qp world kw p (results, tr) =
      (None, results,
       tr @ [Get (projr (build_url self qp kw p)),
             WaitUntil (wait_selector (site self)) (wait_sec self)])"
      using u True by (rule crawl_page_timed_out)
    then show ?thesis
      using True by (simp add: page_events_def)
  next
    case False
    then have r: "ready self (world p)" using assms(2) by (simp add: benign_def)
    have "crawl_page self qp world kw p (results, tr) =
      (None, results @ extracted self (world p),
       tr @ [Get (projr (build_url self qp kw p)),
             WaitUntil (wait_selector (site self)) (wait_sec self), ParsePage,
             Sleep (delay_range self)])"
      using u r by (rule crawl_page_ready)
    then show ?thesis
      using False by (simp add: page_events_def)
  qed
qed

lemma crawl_pages_benign:
  assumes "qp kw = Inr k"
  shows "\<forall>p\<in>set ps. benign self (world p) \<Longrightarrow>
   crawl_pages self qp world kw ps (results, tr) =
     (None,
      results @ concat (map (\<lambda>p. if timed_out (world p) then [] else extracted self (world p)) ps),
      tr @ concat (map (\<lambda>p. page_events self (projr (build_url self qp kw p)) (world p)) ps))"
proof (induction ps arbitrary: results tr)
  case Nil
  show ?case by simp
next
  case (Cons p ps)
  have b: "benign self (world p)" using Cons.prems by simp
  have r: "\<forall>p\<in>set ps. benign self (world p)" using Cons.prems by simp
  have "crawl_page self qp world kw p (results, tr) =
     (None, results @ (if timed_out (world p) then [] else extracted self (world p)),
      tr @ page_events self (projr (build_url self qp kw p)) (world p))"
    using assms b by (rule crawl_page_benign)
  then show ?case
    using Cons.IH [OF r] by simp
qed

lemma crawl_pages_append:
  "crawl_pages self qp world kw (ps @ qs) st =
     (case crawl_pages self qp world kw ps st of
        (Some e, st') \<Rightarrow> (Some e, st')
      | (None, st') \<Rightarrow> crawl_pages self qp world kw qs st')"
proof (induction ps arbitrary: st)
  case Nil
  show ?case by simp
next
  case (Cons p ps)
  obtain r st' where c: "crawl_page self qp world kw p st = (r, st')"
    by (cases "crawl_page self qp world kw p st") auto
  show ?case
    by (cases r) (simp_all add: c Cons.IH)
qed

lemma crawl_pages_fatal:
  assumes q: "qp kw = Inr k"
    and b: "\<forall>p\<in>set ps. benign self (world p)"
    and f: "fatal (world pg) e"
  shows "crawl_pages self qp world kw (ps @ pg # qs) ([], tr) =
     (Some e,
      concat (map (\<lambda>p. if timed_out (world p) then [] else extracted self (world p)) ps),
      tr @ concat (map (\<lambda>p. page_events self (projr (build_url self qp kw p)) (world p)) ps)
         @ Get (projr (build_url self qp kw pg))
           # (if get_raises (world pg) = None
              then [WaitUntil (wait_selector (site self)) (wait_sec self)] else []))"
proof -
  have u: "build_url self qp kw pg = Inr (projr (build_url self qp kw pg))"
    using q by (rule build_url_returns)
  have p: "crawl_pages self qp world kw ps ([], tr) =
     (None,
      [] @ concat (map (\<lambda>p. if timed_out (world p) then [] else extracted self (world p)) ps),
      tr @ concat (map (\<lambda>p. page_events self (projr (build_url self qp kw p)) (world p)) ps))"
    using q b by (rule crawl_pages_benign)
  have g: "crawl_page self qp world kw pg
       (concat (map (\<lambda>p. if timed_out (world p) then [] else extracted self (world p)) ps),
        tr @ concat (map (\<lambda>p. page_events self (projr (build_url self qp kw p)) (world p)) ps)) =
     (Some e,
      concat (map (\<lambda>p. if timed_out (world p) then [] else extracted self (world p)) ps),
      (tr @ concat (map (\<lambda>p. page_events self (projr (build_url self qp kw p)) (world p)) ps))
         @ Get (projr (build_url self qp kw pg))
           # (if get_raises (world pg) = None
              then [WaitUntil (wait_selector (site self)) (wait_sec self)] else []))"
    using u f by (rule crawl_page_fatal)
  show ?thesis
    unfolding crawl_pages_append p using g by simp
qed

lemma crawl_benign:
  assumes d: "build_driver_result w = Inr d"
    and q: "qp kw = Inr k"
    and b: "\<forall>p\<in>set [1..pages]. benign self (page_at w p)"
  shows "crawl self qp w kw pages =
     (Inr (concat (map (\<lambda>p. if timed_out (page_at w p) then [] else extracted self (page_at w p))
             [1..pages])),
      self\<lparr>driver := None\<rparr>,
      BuildDriver (headless self)
        # concat (map (\<lambda>p. page_events self (projr (build_url self qp kw p)) (page_at w p))
            [1..pages])
        @ [Quit d])"
proof -
  have b': "\<forall>p\<in>set [1..pages]. benign (self\<lparr>driver := Some d\<rparr>) (page_at w p)"
    using b by simp
  have p: "crawl_pages (self\<lparr>driver := Some d\<rparr>) qp (page_at w) kw [1..pages]
       ([], [BuildDriver (headless self)]) =
     (None,
      [] @ concat (map (\<lambda>p. if timed_out (page_at w p) then []
                           else extracted (self\<lparr>driver := Some d\<rparr>) (page_at w p)) [1..pages]),
      [BuildDriver (headless self)]
        @ concat (map (\<lambda>p. page_events (self\<lparr>driver := Some d\<rparr>)
                          (projr (build_url (self\<lparr>driver := Some d\<rparr>) qp kw p)) (page_at w p))
            [1..pages]))"
    using q b' by (rule crawl_pages_benign)
  show ?thesis
    unfolding crawl_def d using p by (simp cong: if_cong)
qed

lemma crawl_fatal:
  assumes d: "build_driver_result w = Inr d"
    and q: "qp kw = Inr k"
    and r: "1 \<le> pg" "pg \<le> pages"
    and b: "\<forall>p\<in>set [1..pg - 1]. benign self (page_at w p)"
    and f: "fatal (page_at w pg) e"
  shows "crawl self qp w kw pages =
     (Inr (concat (map (\<lambda>p. if timed_out (page_at w p) then [] else extracted self (page_at w p))
             [1..pg - 1])),
      self\<lparr>driver := None\<rparr>,
      BuildDriver (headless self)
        # concat (map (\<lambda>p. page_events self (projr (build_url self qp kw p)) (page_at w p))
            [1..pg - 1])
        @ Get (projr (build_url self qp kw pg))
          # (if get_raises (page_at w pg) = None
             then [WaitUntil (wait_selector (site self)) (wait_sec self)] else [])
        @ [Quit d])"
proof -
  have s: "[1..pages] = [1..pg - 1] @ pg # [pg + 1..pages]"
    using r by (rule upto_split3)
  have b': "\<forall>p\<in>set [1..pg - 1]. benign (self\<lparr>driver := Some d\<rparr>) (page_at w p)"
    using b by simp
  have e: "is_Exception e" using f by (simp add: fatal_def)
  have p: "crawl_pages (self\<lparr>driver := Some d\<rparr>) qp (page_at w) kw
       ([1..pg - 1] @ pg # [pg + 1..pages]) ([], [BuildDriver (headless self)]) =
     (Some e,
      concat (map (\<lambda>p. if timed_out (page_at w p) then []
                      else extracted (self\<lparr>driver := Some d\<rparr>) (page_at w p)) [1..pg - 1]),
      [BuildDriver (headless self)]
        @ concat (map (\<lambda>p. page_events (self\<lparr>driver := Some d\<rparr>)
                          (projr (build_url (self\<lparr>driver := Some d\<rparr>) qp kw p)) (page_at w p))
            [1..pg - 1])
        @ Get (projr (build_url (self\<lparr>driver := Some d\<rparr>) qp kw pg))
          # (if get_raises (page_at w pg) = None
             then [WaitUntil (wait_selector (site (self\<lparr>driver := Some d\<rparr>)))
                     (wait_sec (self\<lparr>driver := Some d\<rparr>))] else []))"
    using q b' f by (rule crawl_pages_fatal)
  have c: "crawl self qp w kw pages =
     (case crawl_pages (self\<lparr>driver := Some d\<rparr>) qp (page_at w) kw
             ([1..pg - 1] @ pg # [pg + 1..pages]) ([], [BuildDriver (headless self)]) of
        (raised, results, tr) \<Rightarrow>
          (case raised of None \<Rightarrow> Inr results
           | Some e \<Rightarrow> if is_Exception e then Inr results else Inl e,
           self\<lparr>driver := None\<rparr>, tr @ [Quit d]))"
    unfolding crawl_def d s [symmetric] by (simp split: prod.split)
  show ?thesis
    unfolding c p using e by (simp cong: if_cong)
qed

lemma crawl_page_no_quit:
  "filter is_Quit (snd (snd (crawl_page self qp world kw p (results, tr)))) = filter is_Quit tr"
  unfolding crawl_page_def extend_and_sleep_def Let_def
  by (simp split: sum.split option.split)

lemma crawl_pages_no_quit:
  "filter is_Quit (snd (snd (crawl_pages self qp world kw ps (results, tr)))) = filter is_Quit tr"
proof (induction ps arbitrary: results tr)
  case Nil
  show ?case by simp
next
  case (Cons p ps)
  obtain r results' tr' where c: "crawl_page self qp world kw p (results, tr) = (r, results', tr')"
    by (cases "crawl_page self qp world kw p (results, tr)") auto
  have q: "filter is_Quit tr' = filter is_Quit tr"
    using crawl_page_no_quit [of self qp world kw p results tr] by (simp add: c)
  show ?case
    by (cases r) (simp_all add: c q Cons.IH)
qed

text \<open>
  Claim C6. Whatever the pages of a run do (all pages complete, the loop is left by a
  fatal error, parsing fails, or an exception propagates out of \<^verbatim>\<open>crawl\<close>), the driver
  that \<^verbatim>\<open>build_driver\<close> returned is quit exactly once, as the last event of the run, and
  the crawler's handle is \<open>None\<close> afterwards.
\<close>

theorem driver_released:
  "build_driver_result w = Inr d \<Longrightarrow>
   driver (fst (snd (crawl self qp w kw pages))) = None
   \<and> filter is_Quit (snd (snd (crawl self qp w kw pages))) = [Quit d]
   \<and> last (snd (snd (crawl self qp w kw pages))) = Quit d"
proof -
  assume d: "build_driver_result w = Inr d"
  obtain raised results tr where
    c: "crawl_pages (self\<lparr>driver := Some d\<rparr>) qp (page_at w) kw [1..pages]
          ([], [BuildDriver (headless self)]) = (raised, results, tr)"
    by (cases "crawl_pages (self\<lparr>driver := Some d\<rparr>) qp (page_at w) kw [1..pages]
          ([], [BuildDriver (headless self)])") auto
  have q: "filter is_Quit tr = []"
    using crawl_pages_no_quit [of "self\<lparr>driver := Some d\<rparr>" qp "page_at w" kw "[1..pages]" "[]"
        "[BuildDriver (headless self)]"]
    by (simp add: c)
  have "crawl self qp w kw pages =
      (case raised of None \<Rightarrow> Inr results
       | Some e \<Rightarrow> if is_Exception e then Inr results else Inl e,
       self\<lparr>driver := None\<rparr>, tr @ [Quit d])"
    unfolding crawl_def d using c by simp
  then show ?thesis using q by simp
qed

theorem driver_released_witness:
  "build_driver_result (sample_site Naver session_lost) = Inr 7
   \<and> driver (fst (snd (crawl (new_crawler Naver True 8) Inr (sample_site Naver session_lost)
        (ascii ''ai'') 3))) = None
   \<and> filter is_Quit (snd (snd (crawl (new_crawler Naver True 8) Inr
        (sample_site Naver session_lost) (ascii ''ai'') 3))) = [Quit 7]
   \<and> last (snd (snd (crawl (new_crawler Naver True 8) Inr (sample_site Naver session_lost)
        (ascii ''ai'') 3))) = Quit 7"
proof -
  have d: "build_driver_result (sample_site Naver session_lost) = Inr 7"
    by (simp add: sample_site_def)
  show ?thesis
    using d driver_released [OF d, of "new_crawler Naver True 8" Inr "ascii ''ai''" 3]
    by simp
qed

lemma gets_append: "gets (a @ b) = gets a @ gets b"
  by (induction a rule: gets.induct) simp_all

lemma gets_page_events: "gets (page_events self u w) = [u]"
  by (simp add: page_events_def)

lemma gets_concat_page_events:
  "gets (concat (map (\<lambda>p. page_events self (f p) (world p)) ps)) = map f ps"
  by (induction ps) (simp_all add: gets_append gets_page_events)

lemma sleeps_page_events:
  "filter is_Sleep (page_events self u w) = (if timed_out w then [] else [Sleep (delay_range self)])"
  by (simp add: page_events_def)

lemma sleeps_concat_page_events:
  "filter is_Sleep (concat (map (\<lambda>p. page_events self (f p) (world p)) ps)) =
   map (\<lambda>p. Sleep (delay_range self)) (filter (\<lambda>p. \<not> timed_out (world p)) ps)"
  by (induction ps) (simp_all add: sleeps_page_events)

lemma build_urls_returned:
  assumes "qp kw = Inr k"
  shows "map Inr (map (\<lambda>p. projr (build_url self qp kw p)) ps) = map (build_url self qp kw) ps"
proof -
  have "\<And>p. Inr (projr (build_url self qp kw p)) = build_url self qp kw p"
    using build_url_returns [of qp kw k self] assms by simp
  then show ?thesis by simp
qed

subsection \<open>The sample pages and worlds\<close>

lemma parse_page_document: "\<exists>items. parse_page self (Inr document) now = Inr items"
  by (cases "site self") (simp_all add: parse_page_def)

lemma ready_loaded_document: "ready self (loaded (Inr document))"
  using parse_page_document [of self document "ascii ''2024-01-01 00:00:00''"]
  by (auto simp add: ready_def loaded_def)

lemma ready_loaded_broken: "is_Exception e \<Longrightarrow> ready self (loaded (Inl e))"
  by (simp add: ready_def loaded_def parse_page_def)

lemma timed_out_never_ready: "timed_out never_ready"
  by (simp add: timed_out_def never_ready_def)

lemma fatal_session_lost: "fatal session_lost OtherException"
  by (simp add: fatal_def session_lost_def is_Exception_def)

lemma not_timed_out_loaded: "\<not> timed_out (loaded page)"
  by (simp add: timed_out_def loaded_def)

lemma benign_sample_site:
  "benign self second \<Longrightarrow> benign self (page_at (sample_site cls second) p)"
  by (simp add: sample_site_def benign_def ready_loaded_document)

lemma upto_1_3: "[1..3] = [1, 2, 3::int]"
  by (simp add: upto_rec1)

text \<open>
  Claim C4. A page whose wait times out adds no records, is navigated to once and does
  not stop the run: when no page of a run is fatal, the result is the concatenation, in
  page order, of what the pages that did not time out yield, and the navigations are
  exactly one per page. For three pages of which only the second times out this is what
  pages 1 and 3 yield.
\<close>

theorem timed_out_page_skipped:
  assumes "build_driver_result w = Inr d"
    and "quote_plus keyword = Inr kw"
    and "\<forall>p\<in>set [1..pages]. benign self (page_at w p)"
  shows "fst (crawl self quote_plus w keyword pages) =
      Inr (concat (map (\<lambda>p. if timed_out (page_at w p) then [] else extracted self (page_at w p))
             [1..pages]))
    \<and> map Inr (gets (snd (snd (crawl self quote_plus w keyword pages)))) =
      map (build_url self quote_plus keyword) [1..pages]
    \<and> (pages = 3 \<and> \<not> timed_out (page_at w 1) \<and> timed_out (page_at w 2)
         \<and> \<not> timed_out (page_at w 3) \<longrightarrow>
       fst (crawl self quote_plus w keyword pages) =
         Inr (extracted self (page_at w 1) @ extracted self (page_at w 3)))"
proof -
  have c: "crawl self quote_plus w keyword pages =
     (Inr (concat (map (\<lambda>p. if timed_out (page_at w p) then [] else extracted self (page_at w p))
             [1..pages])),
      self\<lparr>driver := None\<rparr>,
      BuildDriver (headless self)
        # concat (map (\<lambda>p. page_events self (projr (build_url self quote_plus keyword p))
                          (page_at w p)) [1..pages])
        @ [Quit d])"
    using assms by (rule crawl_benign)
  have g: "map Inr (gets (snd (snd (crawl self quote_plus w keyword pages)))) =
      map (build_url self quote_plus keyword) [1..pages]"
    using build_urls_returned [of quote_plus keyword kw self "[1..pages]"] assms(2)
    by (simp add: c gets_append gets_concat_page_events)
  have r: "fst (crawl self quote_plus w keyword pages) =
      Inr (concat (map (\<lambda>p. if timed_out (page_at w p) then [] else extracted self (page_at w p))
             [1..pages]))"
    by (simp add: c)
  have t: "pages = 3 \<and> \<not> timed_out (page_at w 1) \<and> timed_out (page_at w 2)
         \<and> \<not> timed_out (page_at w 3) \<longrightarrow>
       fst (crawl self quote_plus w keyword pages) =
         Inr (extracted self (page_at w 1) @ extracted self (page_at w 3))"
    unfolding r by (simp add: upto_1_3)
  show ?thesis
    using r g t by blast
qed

theorem timed_out_page_skipped_witness:
  "build_driver_result (sample_site Naver never_ready) = Inr 7
   \<and> benign (new_crawler Naver True 8) (page_at (sample_site Naver never_ready) 1)
   \<and> benign (new_crawler Naver True 8) (page_at (sample_site Naver never_ready) 2)
   \<and> benign (new_crawler Naver True 8) (page_at (sample_site Naver never_ready) 3)
   \<and> timed_out (page_at (sample_site Naver never_ready) 2)
   \<and> map title (projr (fst (crawl (new_crawler Naver True 8) Inr (sample_site Naver never_ready)
         (ascii ''ai'') 3))) = [ascii ''naver1'', ascii ''naver3'']
   \<and> gets (snd (snd (crawl (new_crawler Naver True 8) Inr (sample_site Naver never_ready)
         (ascii ''ai'') 3))) =
       [ascii ''https://search.naver.com/search.naver?where=news&query=ai&start=1&sort=1'',
        ascii ''https://search.naver.com/search.naver?where=news&query=ai&start=11&sort=1'',
        ascii ''https://search.naver.com/search.naver?where=news&query=ai&start=21&sort=1'']"
proof -
  let ?c = "new_crawler Naver True 8"
  let ?w = "sample_site Naver never_ready"
  have d: "build_driver_result ?w = Inr 7"
    by (simp add: sample_site_def)
  have q: "Inr (ascii ''ai'') = (Inr (ascii ''ai'') :: exn + ustring)"
    by simp
  have "benign ?c never_ready"
    by (simp add: benign_def timed_out_never_ready)
  then have b: "\<forall>p\<in>set [1..3]. benign ?c (page_at ?w p)"
    by (simp add: benign_sample_site)
  have t: "timed_out (page_at ?w 2)" "\<not> timed_out (page_at ?w 1)" "\<not> timed_out (page_at ?w 3)"
    by (simp_all add: sample_site_def timed_out_never_ready not_timed_out_loaded)
  have e: "map title (extracted ?c (page_at ?w 1)) = [ascii ''naver1'']"
      "map title (extracted ?c (page_at ?w 3)) = [ascii ''naver3'']"
    by (simp_all add: sample_site_def extracted_def loaded_def parse_page_def new_crawler_def
        find_elements_def find_element_def safe_text_def sample_card_def strip_def isspace_def
        str_of_int_def digits.simps ascii_def Let_def)
  have u: "map (build_url ?c Inr (ascii ''ai'')) [1, 2, 3] =
      map Inr [ascii ''https://search.naver.com/search.naver?where=news&query=ai&start=1&sort=1'',
        ascii ''https://search.naver.com/search.naver?where=news&query=ai&start=11&sort=1'',
        ascii ''https://search.naver.com/search.naver?where=news&query=ai&start=21&sort=1'']"
    by (simp add: build_url_def new_crawler_def str_of_int_def digits.simps ascii_def)
  have m: "map (Inr :: ustring \<Rightarrow> exn + ustring) xs = map Inr ys \<Longrightarrow> xs = ys" for xs ys
    by (simp add: inj_map_eq_map)
  note th = timed_out_page_skipped [of ?w 7 Inr "ascii ''ai''" "ascii ''ai''" 3 ?c, OF d q b]
  have g0: "map Inr (gets (snd (snd (crawl ?c Inr ?w (ascii ''ai'') 3)))) =
      map (build_url ?c Inr (ascii ''ai'')) [1..3]"
    using th by blast
  have "map Inr (gets (snd (snd (crawl ?c Inr ?w (ascii ''ai'') 3)))) =
      map (Inr :: ustring \<Rightarrow> exn + ustring) [ascii ''https://search.naver.com/search.naver?where=news&query=ai&start=1&sort=1'',
        ascii ''https://search.naver.com/search.naver?where=news&query=ai&start=11&sort=1'',
        ascii ''https://search.naver.com/search.naver?where=news&query=ai&start=21&sort=1'']"
    by (rule trans [OF g0]) (unfold upto_1_3, rule u)
  then have g: "gets (snd (snd (crawl ?c Inr ?w (ascii ''ai'') 3))) =
      [ascii ''https://search.naver.com/search.naver?where=news&query=ai&start=1&sort=1'',
        ascii ''https://search.naver.com/search.naver?where=news&query=ai&start=11&sort=1'',
        ascii ''https://search.naver.com/search.naver?where=news&query=ai&start=21&sort=1'']"
    by (rule m)
  have "fst (crawl ?c Inr ?w (ascii ''ai'') 3) =
      Inr (extracted ?c (page_at ?w 1) @ extracted ?c (page_at ?w 3))"
    using th t by blast
  then have r: "map title (projr (fst (crawl ?c Inr ?w (ascii ''ai'') 3))) =
      [ascii ''naver1'', ascii ''naver3'']"
    using e by simp
  have b': "benign ?c (page_at ?w 1)" "benign ?c (page_at ?w 2)" "benign ?c (page_at ?w 3)"
    using b by (simp_all add: upto_1_3)
  show ?thesis
    using d b' t(1) r g by blast
qed

lemma sample_urls:
  "build_url (new_crawler Naver hl ws) Inr (ascii ''ai'') 1 =
     Inr (ascii ''https://search.naver.com/search.naver?where=news&query=ai&start=1&sort=1'')"
  "build_url (new_crawler Naver hl ws) Inr (ascii ''ai'') 2 =
     Inr (ascii ''https://search.naver.com/search.naver?where=news&query=ai&start=11&sort=1'')"
  "build_url (new_crawler Naver hl ws) Inr (ascii ''ai'') 3 =
     Inr (ascii ''https://search.naver.com/search.naver?where=news&query=ai&start=21&sort=1'')"
  by (simp_all add: build_url_def new_crawler_def str_of_int_def digits.simps ascii_def)

lemma sample_run_trace:
  assumes "benign (new_crawler Naver True 8) second"
  shows "snd (snd (crawl (new_crawler Naver True 8) Inr (sample_site Naver second) (ascii ''ai'') 3)) =
     [BuildDriver True,
      Get (ascii ''https://search.naver.com/search.naver?where=news&query=ai&start=1&sort=1''),
      WaitUntil ''ul.list_news > li'' 8, ParsePage, Sleep (1.2, 2.5),
      Get (ascii ''https://search.naver.com/search.naver?where=news&query=ai&start=11&sort=1''),
      WaitUntil ''ul.list_news > li'' 8]
     @ (if timed_out second then [] else [ParsePage, Sleep (1.2, 2.5)])
     @ [Get (ascii ''https://search.naver.com/search.naver?where=news&query=ai&start=21&sort=1''),
      WaitUntil ''ul.list_news > li'' 8, ParsePage, Sleep (1.2, 2.5), Quit 7]"
proof -
  let ?c = "new_crawler Naver True 8"
  let ?w = "sample_site Naver second"
  have d: "build_driver_result ?w = Inr 7"
    by (simp add: sample_site_def)
  have q: "Inr (ascii ''ai'') = (Inr (ascii ''ai'') :: exn + ustring)"
    by simp
  have b: "\<forall>p\<in>set [1..3]. benign ?c (page_at ?w p)"
    using assms by (simp add: benign_sample_site)
  have c: "crawl ?c Inr ?w (ascii ''ai'') 3 =
     (Inr (concat (map (\<lambda>p. if timed_out (page_at ?w p) then [] else extracted ?c (page_at ?w p))
             [1..3])),
      ?c\<lparr>driver := None\<rparr>,
      BuildDriver (headless ?c)
        # concat (map (\<lambda>p. page_events ?c (projr (build_url ?c Inr (ascii ''ai'') p)) (page_at ?w p))
            [1..3])
        @ [Quit 7])"
    using d q b by (rule crawl_benign)
  have p: "page_at ?w 1 = loaded (Inr (sample_page Naver [SITE_KEY Naver @ str_of_int 1]))"
      "page_at ?w 2 = second"
      "page_at ?w 3 = loaded (Inr (sample_page Naver [SITE_KEY Naver @ str_of_int 3]))"
    by (simp_all add: sample_site_def)
  have f: "headless ?c = True" "wait_sec ?c = 8" "delay_range ?c = (1.2, 2.5)" "site ?c = Naver"
    by (simp_all add: new_crawler_def)
  show ?thesis
    unfolding c
    by (simp add: upto_1_3 page_events_def p f sample_urls not_timed_out_loaded)
qed


text \<open>
  Claim C5 does not hold as stated: the handler of the timeout leaves the loop body with
  \<^verbatim>\<open>continue\<close>, before the pacing sleep. In a three-page run whose second page times
  out, the navigation to page 3 follows the wait of page 2 directly.
\<close>

theorem no_pacing_after_timeout:
  "timed_out (page_at (sample_site Naver never_ready) 2)
   \<and> snd (snd (crawl (new_crawler Naver True 8) Inr (sample_site Naver never_ready)
        (ascii ''ai'') 3)) =
     [BuildDriver True,
      Get (ascii ''https://search.naver.com/search.naver?where=news&query=ai&start=1&sort=1''),
      WaitUntil ''ul.list_news > li'' 8, ParsePage, Sleep (1.2, 2.5),
      Get (ascii ''https://search.naver.com/search.naver?where=news&query=ai&start=11&sort=1''),
      WaitUntil ''ul.list_news > li'' 8,
      Get (ascii ''https://search.naver.com/search.naver?where=news&query=ai&start=21&sort=1''),
      WaitUntil ''ul.list_news > li'' 8, ParsePage, Sleep (1.2, 2.5), Quit 7]"
proof -
  have b: "benign (new_crawler Naver True 8) never_ready"
    by (simp add: benign_def timed_out_never_ready)
  have t: "timed_out (page_at (sample_site Naver never_ready) 2)"
    by (simp add: sample_site_def timed_out_never_ready)
  show ?thesis
    using t sample_run_trace [OF b] by (simp add: timed_out_never_ready)
qed

text \<open>
  Claim C5, amended. In a run without a fatal page, each page whose wait succeeds is
  followed, after parsing, by one pacing sleep over the configured interval
  \<open>delay_range\<close>, also when parsing raised; a page that times out is followed by none.
  So the pacing sleeps of the run are one per page that did not time out.
\<close>

theorem pacing_after_ready_pages:
  assumes "build_driver_result w = Inr d"
    and "quote_plus keyword = Inr kw"
    and "\<forall>p\<in>set [1..pages]. benign self (page_at w p)"
  shows "snd (snd (crawl self quote_plus w keyword pages)) =
      BuildDriver (headless self)
        # concat (map (\<lambda>p.
              [Get (projr (build_url self quote_plus keyword p)),
               WaitUntil (wait_selector (site self)) (wait_sec self)]
              @ (if timed_out (page_at w p) then [] else [ParsePage, Sleep (delay_range self)]))
            [1..pages])
        @ [Quit d]
    \<and> filter is_Sleep (snd (snd (crawl self quote_plus w keyword pages))) =
      map (\<lambda>p. Sleep (delay_range self)) (filter (\<lambda>p. \<not> timed_out (page_at w p)) [1..pages])"
proof -
  have c: "crawl self quote_plus w keyword pages =
     (Inr (concat (map (\<lambda>p. if timed_out (page_at w p) then [] else extracted self (page_at w p))
             [1..pages])),
      self\<lparr>driver := None\<rparr>,
      BuildDriver (headless self)
        # concat (map (\<lambda>p. page_events self (projr (build_url self quote_plus keyword p))
                          (page_at w p)) [1..pages])
        @ [Quit d])"
    using assms by (rule crawl_benign)
  have t: "snd (snd (crawl self quote_plus w keyword pages)) =
      BuildDriver (headless self)
        # concat (map (\<lambda>p.
              [Get (projr (build_url self quote_plus keyword p)),
               WaitUntil (wait_selector (site self)) (wait_sec self)]
              @ (if timed_out (page_at w p) then [] else [ParsePage, Sleep (delay_range self)]))
            [1..pages])
        @ [Quit d]"
    by (simp add: c page_events_def)
  have s: "filter is_Sleep (snd (snd (crawl self quote_plus w keyword pages))) =
      map (\<lambda>p. Sleep (delay_range self)) (filter (\<lambda>p. \<not> timed_out (page_at w p)) [1..pages])"
    by (simp add: c sleeps_concat_page_events)
  show ?thesis
    using t s by blast
qed

theorem pacing_after_ready_pages_witness:
  "build_driver_result (sample_site Naver (loaded (Inl OtherException))) = Inr 7
   \<and> benign (new_crawler Naver True 8) (page_at (sample_site Naver (loaded (Inl OtherException))) 1)
   \<and> benign (new_crawler Naver True 8) (page_at (sample_site Naver (loaded (Inl OtherException))) 2)
   \<and> benign (new_crawler Naver True 8) (page_at (sample_site Naver (loaded (Inl OtherException))) 3)
   \<and> parse_page (new_crawler Naver True 8)
        (shown (page_at (sample_site Naver (loaded (Inl OtherException))) 2))
        (clock (page_at (sample_site Naver (loaded (Inl OtherException))) 2)) = Inl OtherException
   \<and> filter is_Sleep (snd (snd (crawl (new_crawler Naver True 8) Inr
        (sample_site Naver (loaded (Inl OtherException))) (ascii ''ai'') 3))) =
      [Sleep (1.2, 2.5), Sleep (1.2, 2.5), Sleep (1.2, 2.5)]"
proof -
  let ?c = "new_crawler Naver True 8"
  let ?w = "sample_site Naver (loaded (Inl OtherException))"
  have d: "build_driver_result ?w = Inr 7"
    by (simp add: sample_site_def)
  have q: "Inr (ascii ''ai'') = (Inr (ascii ''ai'') :: exn + ustring)"
    by simp
  have "benign ?c (loaded (Inl OtherException))"
    by (simp add: benign_def ready_loaded_broken is_Exception_def)
  then have b: "\<forall>p\<in>set [1..3]. benign ?c (page_at ?w p)"
    by (simp add: benign_sample_site)
  have b': "benign ?c (page_at ?w 1)" "benign ?c (page_at ?w 2)" "benign ?c (page_at ?w 3)"
    using b by (simp_all add: upto_1_3)
  have e: "parse_page ?c (shown (page_at ?w 2)) (clock (page_at ?w 2)) = Inl OtherException"
    by (simp add: sample_site_def loaded_def parse_page_def)
  have n: "\<not> timed_out (page_at ?w 1)" "\<not> timed_out (page_at ?w 2)" "\<not> timed_out (page_at ?w 3)"
    by (simp_all add: sample_site_def not_timed_out_loaded)
  have f: "delay_range ?c = (1.2, 2.5)"
    by (simp add: new_crawler_def)
  note th = pacing_after_ready_pages [of ?w 7 Inr "ascii ''ai''" "ascii ''ai''" 3 ?c, OF d q b]
  have "filter is_Sleep (snd (snd (crawl ?c Inr ?w (ascii ''ai'') 3))) =
      map (\<lambda>p. Sleep (delay_range ?c)) (filter (\<lambda>p. \<not> timed_out (page_at ?w p)) [1..3])"
    using th by blast
  then have s: "filter is_Sleep (snd (snd (crawl ?c Inr ?w (ascii ''ai'') 3))) =
      [Sleep (1.2, 2.5), Sleep (1.2, 2.5), Sleep (1.2, 2.5)]"
    using n f by (simp add: upto_1_3)
  show ?thesis
    using d b' e s by blast
qed

section \<open>Properties of the multi-site manager\<close>

lemma site_runs_Nil: "site_runs i [] qp worlds kw pages = []"
  by (simp add: site_runs_def)

lemma site_runs_Cons:
  "site_runs i (c # cs) qp worlds kw pages =
   crawl c qp (worlds i) kw pages # site_runs (Suc i) cs qp worlds kw pages"
  by (simp add: site_runs_def)

lemma length_site_runs: "length (site_runs i cs qp worlds kw pages) = length cs"
  by (simp add: site_runs_def)

lemma nth_site_runs:
  "j < length cs \<Longrightarrow>
   site_runs i cs qp worlds kw pages ! j = crawl (cs ! j) qp (worlds (i + j)) kw pages"
  by (simp add: site_runs_def nth_enumerate_eq)

lemma crawl_sites_returning:
  "\<forall>r\<in>set (site_runs i cs qp worlds kw pages). \<exists>items. fst r = Inr items \<Longrightarrow>
   crawl_sites cs qp worlds i kw pages (all_items, tr) =
     (None,
      all_items @ concat (map (projr \<circ> fst) (site_runs i cs qp worlds kw pages)),
      tr @ concat (map (snd \<circ> snd) (site_runs i cs qp worlds kw pages)))"
proof (induction cs arbitrary: i all_items tr)
  case Nil
  show ?case by (simp add: site_runs_Nil)
next
  case (Cons c cs)
  obtain items where r: "fst (crawl c qp (worlds i) kw pages) = Inr items"
    using Cons.prems by (auto simp add: site_runs_Cons)
  obtain c' tr' where e: "crawl c qp (worlds i) kw pages = (Inr items, c', tr')"
    using r by (cases "crawl c qp (worlds i) kw pages") auto
  have o: "\<forall>r\<in>set (site_runs (Suc i) cs qp worlds kw pages). \<exists>items. fst r = Inr items"
    using Cons.prems by (simp add: site_runs_Cons)
  show ?case
    by (simp add: e site_runs_Cons Cons.IH [OF o])
qed

lemma MultiSiteCrawler_crawl_returning:
  assumes "\<forall>r\<in>set (site_runs 0 (crawlers m) qp worlds kw pages). \<exists>items. fst r = Inr items"
  shows "MultiSiteCrawler_crawl m qp worlds kw pages =
     (Inr (deduplicate (concat (map (projr \<circ> fst) (site_runs 0 (crawlers m) qp worlds kw pages)))),
      concat (map (snd \<circ> snd) (site_runs 0 (crawlers m) qp worlds kw pages)))"
  using crawl_sites_returning [OF assms, of "[]" "[]"]
  by (simp add: MultiSiteCrawler_crawl_def)

lemma map_Inr_inject: "map Inr xs = map Inr ys \<Longrightarrow> xs = ys"
  by (simp add: inj_map_eq_map)

lemma upto_snoc: "1 \<le> pg \<Longrightarrow> [1..pg] = [1..pg - 1] @ [pg]"
  by (rule upto_rec2)

text \<open>
  Claim C2. When navigation or the wait of some page of a site raises an \<^verbatim>\<open>Exception\<close>
  that is not the wait's timeout, that site's run stops there: it returns the records of
  the earlier pages and navigates to no later page. The manager goes on: when no site's
  \<^verbatim>\<open>crawl\<close> raises, its trace is the sequence of the complete runs of all its
  crawlers, and its result is the deduplicated concatenation of what these runs return.
\<close>

theorem fatal_page_aborts_site_only:
  assumes "i < length (crawlers m)"
    and "build_driver_result (worlds i) = Inr d"
    and "quote_plus keyword = Inr kw"
    and "1 \<le> pg" and "pg \<le> pages"
    and "\<forall>p\<in>set [1..pg - 1]. benign (crawlers m ! i) (page_at (worlds i) p)"
    and "fatal (page_at (worlds i) pg) e"
    and "\<forall>r\<in>set (site_runs 0 (crawlers m) quote_plus worlds keyword pages).
           \<exists>items. fst r = Inr items"
  shows "fst (crawl (crawlers m ! i) quote_plus (worlds i) keyword pages) =
      Inr (concat (map (\<lambda>p. if timed_out (page_at (worlds i) p) then []
                            else extracted (crawlers m ! i) (page_at (worlds i) p)) [1..pg - 1]))
    \<and> map Inr (gets (snd (snd (crawl (crawlers m ! i) quote_plus (worlds i) keyword pages)))) =
      map (build_url (crawlers m ! i) quote_plus keyword) [1..pg]
    \<and> site_runs 0 (crawlers m) quote_plus worlds keyword pages ! i =
      crawl (crawlers m ! i) quote_plus (worlds i) keyword pages
    \<and> MultiSiteCrawler_crawl m quote_plus worlds keyword pages =
      (Inr (deduplicate (concat (map (projr \<circ> fst)
              (site_runs 0 (crawlers m) quote_plus worlds keyword pages)))),
       concat (map (snd \<circ> snd) (site_runs 0 (crawlers m) quote_plus worlds keyword pages)))"
proof -
  let ?c = "crawlers m ! i"
  have c: "crawl ?c quote_plus (worlds i) keyword pages =
     (Inr (concat (map (\<lambda>p. if timed_out (page_at (worlds i) p) then []
                           else extracted ?c (page_at (worlds i) p)) [1..pg - 1])),
      ?c\<lparr>driver := None\<rparr>,
      BuildDriver (headless ?c)
        # concat (map (\<lambda>p. page_events ?c (projr (build_url ?c quote_plus keyword p))
                          (page_at (worlds i) p)) [1..pg - 1])
        @ Get (projr (build_url ?c quote_plus keyword pg))
          # (if get_raises (page_at (worlds i) pg) = None
             then [WaitUntil (wait_selector (site ?c)) (wait_sec ?c)] else [])
        @ [Quit d])"
    using assms(2,3,4,5,6,7) by (rule crawl_fatal)
  have r: "fst (crawl ?c quote_plus (worlds i) keyword pages) =
      Inr (concat (map (\<lambda>p. if timed_out (page_at (worlds i) p) then []
                            else extracted ?c (page_at (worlds i) p)) [1..pg - 1]))"
    by (simp add: c)
  have "gets (snd (snd (crawl ?c quote_plus (worlds i) keyword pages))) =
      map (\<lambda>p. projr (build_url ?c quote_plus keyword p)) [1..pg]"
    by (simp add: c gets_append gets_concat_page_events upto_snoc [OF assms(4)])
  then have g: "map Inr (gets (snd (snd (crawl ?c quote_plus (worlds i) keyword pages)))) =
      map (build_url ?c quote_plus keyword) [1..pg]"
    using build_urls_returned [of quote_plus keyword kw ?c "[1..pg]"] assms(3) by simp
  have n: "site_runs 0 (crawlers m) quote_plus worlds keyword pages ! i =
      crawl ?c quote_plus (worlds i) keyword pages"
    using nth_site_runs [OF assms(1), of 0 quote_plus worlds keyword pages] by simp
  have a: "MultiSiteCrawler_crawl m quote_plus worlds keyword pages =
      (Inr (deduplicate (concat (map (projr \<circ> fst)
              (site_runs 0 (crawlers m) quote_plus worlds keyword pages)))),
       concat (map (snd \<circ> snd) (site_runs 0 (crawlers m) quote_plus worlds keyword pages)))"
    using assms(8) by (rule MultiSiteCrawler_crawl_returning)
  show ?thesis
    using r g n a by blast
qed


lemma sample_site_pages:
  "page_at (sample_site cls second) 2 = second"
  "\<not> timed_out (page_at (sample_site cls second) 1)"
  "\<not> timed_out (page_at (sample_site cls second) 3)"
  by (simp_all add: sample_site_def not_timed_out_loaded)

lemma sample_extracted:
  "extracted (new_crawler Naver hl ws) (page_at (sample_site Naver second) 1) =
     [\<lparr>title = ascii ''naver1'', press = unknown_press, pub_time = [], url = [],
       source = ascii ''naver'', crawled_at = ascii ''2024-01-01 00:00:00''\<rparr>]"
  "extracted (new_crawler Naver hl ws) (page_at (sample_site Naver second) 3) =
     [\<lparr>title = ascii ''naver3'', press = unknown_press, pub_time = [], url = [],
       source = ascii ''naver'', crawled_at = ascii ''2024-01-01 00:00:00''\<rparr>]"
  "extracted (new_crawler Daum hl ws) (page_at (sample_site Daum second) 1) =
     [\<lparr>title = ascii ''daum1'', press = unknown_press, pub_time = [], url = [],
       source = ascii ''daum'', crawled_at = ascii ''2024-01-01 00:00:00''\<rparr>]"
  "extracted (new_crawler Daum hl ws) (page_at (sample_site Daum second) 3) =
     [\<lparr>title = ascii ''daum3'', press = unknown_press, pub_time = [], url = [],
       source = ascii ''daum'', crawled_at = ascii ''2024-01-01 00:00:00''\<rparr>]"
  by (simp_all add: sample_site_def extracted_def loaded_def parse_page_def new_crawler_def
      find_elements_def find_element_def safe_text_def safe_attr_def get_attribute_def
      extract_time_def or_else_def sample_card_def strip_def isspace_def
      str_of_int_def digits.simps ascii_def Let_def)

lemma sample_daum_urls:
  "map (build_url (new_crawler Daum hl ws) Inr (ascii ''ai'')) [1, 2, 3] =
   map Inr
     [ascii ''https://search.daum.net/search?w=news&q=ai&p=1&spacing=0&sort=recency'',
      ascii ''https://search.daum.net/search?w=news&q=ai&p=2&spacing=0&sort=recency'',
      ascii ''https://search.daum.net/search?w=news&q=ai&p=3&spacing=0&sort=recency'']"
  by (simp add: build_url_def new_crawler_def str_of_int_def digits.simps ascii_def)


theorem fatal_page_aborts_site_only_witness:
  "0 < length (crawlers \<lparr>crawlers = [new_crawler Naver True 8, new_crawler Daum True 8]\<rparr>)
   \<and> build_driver_result (sample_worlds 0) = Inr 7
   \<and> benign (new_crawler Naver True 8) (page_at (sample_worlds 0) 1)
   \<and> fatal (page_at (sample_worlds 0) 2) OtherException
   \<and> map title (projr (fst (crawl (new_crawler Naver True 8) Inr (sample_worlds 0)
         (ascii ''ai'') 3))) = [ascii ''naver1'']
   \<and> gets (snd (snd (crawl (new_crawler Naver True 8) Inr (sample_worlds 0) (ascii ''ai'') 3))) =
       [ascii ''https://search.naver.com/search.naver?where=news&query=ai&start=1&sort=1'',
        ascii ''https://search.naver.com/search.naver?where=news&query=ai&start=11&sort=1'']
   \<and> map title (projr (fst (MultiSiteCrawler_crawl
         \<lparr>crawlers = [new_crawler Naver True 8, new_crawler Daum True 8]\<rparr> Inr sample_worlds
         (ascii ''ai'') 3))) = [ascii ''naver1'', ascii ''daum1'', ascii ''daum3'']
   \<and> gets (snd (MultiSiteCrawler_crawl
         \<lparr>crawlers = [new_crawler Naver True 8, new_crawler Daum True 8]\<rparr> Inr sample_worlds
         (ascii ''ai'') 3)) =
       [ascii ''https://search.naver.com/search.naver?where=news&query=ai&start=1&sort=1'',
        ascii ''https://search.naver.com/search.naver?where=news&query=ai&start=11&sort=1'',
        ascii ''https://search.daum.net/search?w=news&q=ai&p=1&spacing=0&sort=recency'',
        ascii ''https://search.daum.net/search?w=news&q=ai&p=2&spacing=0&sort=recency'',
        ascii ''https://search.daum.net/search?w=news&q=ai&p=3&spacing=0&sort=recency'']"
proof -
  let ?n = "new_crawler Naver True 8"
  let ?d = "new_crawler Daum True 8"
  let ?m = "\<lparr>crawlers = [?n, ?d]\<rparr>"
  let ?kw = "ascii ''ai''"
  let ?item = "\<lambda>t s. \<lparr>title = ascii t, press = unknown_press, pub_time = [], url = [],
       source = ascii s, crawled_at = ascii ''2024-01-01 00:00:00''\<rparr>"
  have w: "sample_worlds 0 = sample_site Naver session_lost"
      "sample_worlds (Suc 0) = sample_site Daum never_ready"
    by (simp_all add: sample_worlds_def)
  have q: "Inr ?kw = (Inr ?kw :: exn + ustring)"
    by simp
  have h1: "0 < length (crawlers ?m)"
    by simp
  have h2: "build_driver_result (sample_worlds 0) = Inr 7"
    by (simp add: w sample_site_def)
  have h2': "build_driver_result (sample_worlds (Suc 0)) = Inr 7"
    by (simp add: w sample_site_def)
  have h4: "(1::int) \<le> 2" and h5: "(2::int) \<le> 3"
    by simp_all
  have b1: "benign ?n (page_at (sample_worlds 0) 1)"
    by (simp add: w sample_site_def benign_def ready_loaded_document)
  have h6: "\<forall>p\<in>set [1..2 - 1]. benign (crawlers ?m ! 0) (page_at (sample_worlds 0) p)"
    using b1 by (simp add: upto_rec1)
  have f: "fatal (page_at (sample_worlds 0) 2) OtherException"
    by (simp add: w sample_site_def fatal_session_lost)
  have h7: "fatal (page_at (sample_worlds 0) 2) OtherException"
    by (rule f)
  have g: "get_raises (page_at (sample_worlds 0) 2) = Some OtherException"
    by (simp add: w sample_site_def session_lost_def)
  have n: "crawl ?n Inr (sample_worlds 0) ?kw 3 =
     (Inr (concat (map (\<lambda>p. if timed_out (page_at (sample_worlds 0) p) then []
                           else extracted ?n (page_at (sample_worlds 0) p)) [1..2 - 1])),
      ?n\<lparr>driver := None\<rparr>,
      BuildDriver (headless ?n)
        # concat (map (\<lambda>p. page_events ?n (projr (build_url ?n Inr ?kw p))
                          (page_at (sample_worlds 0) p)) [1..2 - 1])
        @ Get (projr (build_url ?n Inr ?kw 2))
          # (if get_raises (page_at (sample_worlds 0) 2) = None
             then [WaitUntil (wait_selector (site ?n)) (wait_sec ?n)] else [])
        @ [Quit 7])"
    using h2 q h4 h5 _ f
  proof (rule crawl_fatal)
    show "\<forall>p\<in>set [1..2 - 1]. benign ?n (page_at (sample_worlds 0) p)"
      using b1 by (simp add: upto_rec1)
  qed
  have n1: "fst (crawl ?n Inr (sample_worlds 0) ?kw 3) = Inr [?item ''naver1'' ''naver'']"
    using n by (simp add: w upto_rec1 sample_site_pages sample_extracted)
  have "benign ?d never_ready"
    by (simp add: benign_def timed_out_never_ready)
  then have bd: "\<forall>p\<in>set [1..3]. benign ?d (page_at (sample_worlds (Suc 0)) p)"
    by (simp add: w benign_sample_site)
  have d: "crawl ?d Inr (sample_worlds (Suc 0)) ?kw 3 =
     (Inr (concat (map (\<lambda>p. if timed_out (page_at (sample_worlds (Suc 0)) p) then []
                           else extracted ?d (page_at (sample_worlds (Suc 0)) p)) [1..3])),
      ?d\<lparr>driver := None\<rparr>,
      BuildDriver (headless ?d)
        # concat (map (\<lambda>p. page_events ?d (projr (build_url ?d Inr ?kw p))
                          (page_at (sample_worlds (Suc 0)) p)) [1..3])
        @ [Quit 7])"
    using h2' q bd by (rule crawl_benign)
  have d1: "fst (crawl ?d Inr (sample_worlds (Suc 0)) ?kw 3) =
      Inr [?item ''daum1'' ''daum'', ?item ''daum3'' ''daum'']"
    using d
    by (simp add: w upto_1_3 sample_site_pages timed_out_never_ready sample_extracted)
  have dg: "gets (snd (snd (crawl ?d Inr (sample_worlds (Suc 0)) ?kw 3))) =
      map (\<lambda>p. projr (build_url ?d Inr ?kw p)) [1, 2, 3]"
    unfolding d by (simp add: gets_append gets_page_events upto_1_3)
  have runs: "site_runs 0 (crawlers ?m) Inr sample_worlds ?kw 3 =
      [crawl ?n Inr (sample_worlds 0) ?kw 3, crawl ?d Inr (sample_worlds (Suc 0)) ?kw 3]"
    by (simp add: site_runs_Cons site_runs_Nil)
  have h8: "\<forall>r\<in>set (site_runs 0 (crawlers ?m) Inr sample_worlds ?kw 3). \<exists>items. fst r = Inr items"
    unfolding runs using n1 d1 by simp
  note th = fatal_page_aborts_site_only [of 0 ?m sample_worlds 7 Inr ?kw ?kw 2 3 OtherException,
      OF h1 h2 q h4 h5 h6 h7 h8]
  have c0: "crawlers ?m ! 0 = ?n"
    by simp
  have t1: "map title (projr (fst (crawl ?n Inr (sample_worlds 0) ?kw 3))) = [ascii ''naver1'']"
    unfolding n1 by simp
  have "map Inr (gets (snd (snd (crawl ?n Inr (sample_worlds 0) ?kw 3)))) =
      map (build_url ?n Inr ?kw) [1..2]"
    using th unfolding c0 by blast
  then have "map Inr (gets (snd (snd (crawl ?n Inr (sample_worlds 0) ?kw 3)))) =
      map (Inr :: ustring \<Rightarrow> exn + ustring)
       [ascii ''https://search.naver.com/search.naver?where=news&query=ai&start=1&sort=1'',
        ascii ''https://search.naver.com/search.naver?where=news&query=ai&start=11&sort=1'']"
    by (simp add: upto_rec1 sample_urls)
  then have t2: "gets (snd (snd (crawl ?n Inr (sample_worlds 0) ?kw 3))) =
       [ascii ''https://search.naver.com/search.naver?where=news&query=ai&start=1&sort=1'',
        ascii ''https://search.naver.com/search.naver?where=news&query=ai&start=11&sort=1'']"
    by (rule map_Inr_inject)
  have a: "MultiSiteCrawler_crawl ?m Inr sample_worlds ?kw 3 =
      (Inr (deduplicate (concat (map (projr \<circ> fst)
              (site_runs 0 (crawlers ?m) Inr sample_worlds ?kw 3)))),
       concat (map (snd \<circ> snd) (site_runs 0 (crawlers ?m) Inr sample_worlds ?kw 3)))"
    using th by blast
  have dd: "deduplicate [?item ''naver1'' ''naver'', ?item ''daum1'' ''daum'', ?item ''daum3'' ''daum''] =
      [?item ''naver1'' ''naver'', ?item ''daum1'' ''daum'', ?item ''daum3'' ''daum'']"
    by (simp add: deduplicate_def dedup_key_def strip_def isspace_def ascii_def Let_def)
  have t3: "map title (projr (fst (MultiSiteCrawler_crawl ?m Inr sample_worlds ?kw 3))) =
      [ascii ''naver1'', ascii ''daum1'', ascii ''daum3'']"
    unfolding a runs by (simp add: n1 d1 dd)
  have "map Inr (gets (snd (snd (crawl ?d Inr (sample_worlds (Suc 0)) ?kw 3)))) =
      map (Inr :: ustring \<Rightarrow> exn + ustring)
       [ascii ''https://search.daum.net/search?w=news&q=ai&p=1&spacing=0&sort=recency'',
        ascii ''https://search.daum.net/search?w=news&q=ai&p=2&spacing=0&sort=recency'',
        ascii ''https://search.daum.net/search?w=news&q=ai&p=3&spacing=0&sort=recency'']"
    unfolding dg using sample_daum_urls [of True 8]
      build_urls_returned [of Inr ?kw ?kw ?d "[1, 2, 3]"] by simp
  then have t4': "gets (snd (snd (crawl ?d Inr (sample_worlds (Suc 0)) ?kw 3))) =
       [ascii ''https://search.daum.net/search?w=news&q=ai&p=1&spacing=0&sort=recency'',
        ascii ''https://search.daum.net/search?w=news&q=ai&p=2&spacing=0&sort=recency'',
        ascii ''https://search.daum.net/search?w=news&q=ai&p=3&spacing=0&sort=recency'']"
    by (rule map_Inr_inject)
  have t4: "gets (snd (MultiSiteCrawler_crawl ?m Inr sample_worlds ?kw 3)) =
       [ascii ''https://search.naver.com/search.naver?where=news&query=ai&start=1&sort=1'',
        ascii ''https://search.naver.com/search.naver?where=news&query=ai&start=11&sort=1'',
        ascii ''https://search.daum.net/search?w=news&q=ai&p=1&spacing=0&sort=recency'',
        ascii ''https://search.daum.net/search?w=news&q=ai&p=2&spacing=0&sort=recency'',
        ascii ''https://search.daum.net/search?w=news&q=ai&p=3&spacing=0&sort=recency'']"
    unfolding a runs by (simp add: gets_append t2 t4')
  show ?thesis
    using h1 h2 b1 h7 t1 t2 t3 t4 by blast
qed

section \<open>Properties of the parsers\<close>

lemma naver_cards_titled: "\<forall>x\<in>set (naver_cards now cards). title x \<noteq> []"
  by (induction cards) (simp_all add: Let_def)

lemma daum_cards_titled: "\<forall>x\<in>set (daum_cards now cards). title x \<noteq> []"
  by (induction cards) (simp_all add: Let_def)

lemma hankyung_cards_titled: "\<forall>x\<in>set (hankyung_cards now cards). title x \<noteq> []"
  by (induction cards) (simp_all add: Let_def)

lemma parse_page_titled:
  "parse_page self page now = Inr items \<Longrightarrow> \<forall>x\<in>set items. title x \<noteq> []"
proof (cases page)
  case (Inl e)
  assume "parse_page self page now = Inr items"
  then show ?thesis using Inl by (simp add: parse_page_def)
next
  case (Inr document)
  assume "parse_page self page now = Inr items"
  then show ?thesis
    using Inr naver_cards_titled daum_cards_titled hankyung_cards_titled
    by (cases "site self") (auto simp add: parse_page_def)
qed

lemma crawl_page_titled:
  assumes "\<forall>x\<in>set results. title x \<noteq> []"
  shows "\<forall>x\<in>set (fst (snd (crawl_page self qp world kw p (results, tr)))). title x \<noteq> []"
proof (cases "parse_page self (shown (world p)) (clock (world p))")
  case (Inl e)
  then show ?thesis
    using assms unfolding crawl_page_def extend_and_sleep_def Let_def
    by (simp split: sum.split option.split)
next
  case (Inr items)
  then have "\<forall>x\<in>set items. title x \<noteq> []"
    by (rule parse_page_titled)
  then show ?thesis
    using assms Inr unfolding crawl_page_def extend_and_sleep_def Let_def
    by (auto split: sum.split option.split)
qed

lemma crawl_pages_titled:
  "\<forall>x\<in>set results. title x \<noteq> [] \<Longrightarrow>
   \<forall>x\<in>set (fst (snd (crawl_pages self qp world kw ps (results, tr)))). title x \<noteq> []"
proof (induction ps arbitrary: results tr)
  case Nil
  then show ?case by simp
next
  case (Cons p ps)
  obtain r results' tr' where c: "crawl_page self qp world kw p (results, tr) = (r, results', tr')"
    by (cases "crawl_page self qp world kw p (results, tr)") auto
  have t: "\<forall>x\<in>set results'. title x \<noteq> []"
    using crawl_page_titled [OF Cons.prems, of self qp world kw p tr] by (simp add: c)
  show ?case
    using t Cons.IH [OF t] by (cases r) (simp_all add: c)
qed

lemma crawl_titled:
  assumes "fst (crawl self qp w kw pages) = Inr items"
  shows "\<forall>x\<in>set items. title x \<noteq> []"
proof (cases "build_driver_result w")
  case (Inl e)
  then show ?thesis using assms by (simp add: crawl_def)
next
  case (Inr d)
  obtain raised results tr where
    c: "crawl_pages (self\<lparr>driver := Some d\<rparr>) qp (page_at w) kw [1..pages]
          ([], [BuildDriver (headless self)]) = (raised, results, tr)"
    by (cases "crawl_pages (self\<lparr>driver := Some d\<rparr>) qp (page_at w) kw [1..pages]
          ([], [BuildDriver (headless self)])") auto
  have t: "\<forall>x\<in>set results. title x \<noteq> []"
    using crawl_pages_titled [of "[]" "self\<lparr>driver := Some d\<rparr>" qp "page_at w" kw "[1..pages]"
        "[BuildDriver (headless self)]"]
    by (simp add: c)
  have "fst (crawl self qp w kw pages) =
      (case raised of None \<Rightarrow> Inr results
       | Some e \<Rightarrow> if is_Exception e then Inr results else Inl e)"
    unfolding crawl_def Inr using c by simp
  then have "items = results"
    using assms by (cases raised) (auto split: if_splits)
  then show ?thesis using t by simp
qed

lemma crawl_sites_titled:
  "\<forall>x\<in>set all_items. title x \<noteq> [] \<Longrightarrow>
   \<forall>x\<in>set (fst (snd (crawl_sites cs qp worlds i kw pages (all_items, tr)))). title x \<noteq> []"
proof (induction cs arbitrary: i all_items tr)
  case Nil
  then show ?case by simp
next
  case (Cons c cs)
  obtain r c' tr' where e: "crawl c qp (worlds i) kw pages = (r, c', tr')"
    by (cases "crawl c qp (worlds i) kw pages") auto
  show ?case
  proof (cases r)
    case (Inl ex)
    then show ?thesis using Cons.prems by (simp add: e)
  next
    case (Inr items)
    then have "fst (crawl c qp (worlds i) kw pages) = Inr items"
      by (simp add: e)
    then have "\<forall>x\<in>set items. title x \<noteq> []"
      by (rule crawl_titled)
    then have "\<forall>x\<in>set (all_items @ items). title x \<noteq> []"
      using Cons.prems by auto
    then show ?thesis
      using Cons.IH [of "all_items @ items" "Suc i" "tr @ tr'"] by (simp add: e Inr)
  qed
qed

lemma set_deduplicate: "set (deduplicate items) \<subseteq> set items"
proof (induction items rule: rev_induct)
  case Nil
  show ?case by (simp add: deduplicate_def)
next
  case (snoc r xs)
  then show ?case by (auto simp add: deduplicate_snoc)
qed

lemma MultiSiteCrawler_crawl_titled:
  assumes "fst (MultiSiteCrawler_crawl m qp worlds kw pages) = Inr items"
  shows "\<forall>x\<in>set items. title x \<noteq> []"
proof -
  obtain r all_items tr where
    c: "crawl_sites (crawlers m) qp worlds 0 kw pages ([], []) = (r, all_items, tr)"
    by (cases "crawl_sites (crawlers m) qp worlds 0 kw pages ([], [])") auto
  have t: "\<forall>x\<in>set all_items. title x \<noteq> []"
    using crawl_sites_titled [of "[]" "crawlers m" qp worlds 0 kw pages "[]"] by (simp add: c)
  have "items = deduplicate all_items"
    using assms by (cases r) (simp_all add: MultiSiteCrawler_crawl_def c)
  then show ?thesis
    using t set_deduplicate [of all_items] by auto
qed


text \<open>
  Claim C7. No record has an empty title. A card whose title comes out empty is skipped
  by each of the three parsers; parsing a document never raises on account of its cards;
  so every record that \<^verbatim>\<open>parse_page\<close> returns, every record that a site's run returns
  and every record of the deduplicated list of the manager has a non-empty title.
\<close>

theorem no_record_without_title:
  "(safe_text card' ''a.news_tit'' [] = [] \<longrightarrow>
      naver_cards now (card' # cards) = naver_cards now cards)
   \<and> (safe_text card' ''a.tit_main'' [] = [] \<and> safe_text card' ''a.link_txt'' [] = []
        \<and> safe_text card' ''a.item-title'' [] = [] \<and> safe_text card' ''a.tit_g'' [] = [] \<longrightarrow>
      daum_cards now (card' # cards) = daum_cards now cards)
   \<and> (safe_text card' ''.news-tit'' [] = [] \<and> safe_text card' ''h3.title a'' [] = []
        \<and> safe_text card' ''a.tit'' [] = [] \<and> safe_text card' ''.tit'' [] = [] \<longrightarrow>
      hankyung_cards now (card' # cards) = hankyung_cards now cards)
   \<and> (\<exists>items. parse_page self (Inr document) now = Inr items)
   \<and> (\<forall>items. parse_page self page now = Inr items \<longrightarrow> (\<forall>x\<in>set items. title x \<noteq> []))
   \<and> (\<forall>items. fst (crawl self quote_plus w keyword pages) = Inr items \<longrightarrow>
        (\<forall>x\<in>set items. title x \<noteq> []))
   \<and> (\<forall>items. fst (MultiSiteCrawler_crawl m quote_plus worlds keyword pages) = Inr items \<longrightarrow>
        (\<forall>x\<in>set items. title x \<noteq> []))"
proof -
  have n: "safe_text card' ''a.news_tit'' [] = [] \<longrightarrow>
      naver_cards now (card' # cards) = naver_cards now cards"
    by simp
  have d: "safe_text card' ''a.tit_main'' [] = [] \<and> safe_text card' ''a.link_txt'' [] = []
        \<and> safe_text card' ''a.item-title'' [] = [] \<and> safe_text card' ''a.tit_g'' [] = [] \<longrightarrow>
      daum_cards now (card' # cards) = daum_cards now cards"
    by (simp add: or_else_def)
  have h: "safe_text card' ''.news-tit'' [] = [] \<and> safe_text card' ''h3.title a'' [] = []
        \<and> safe_text card' ''a.tit'' [] = [] \<and> safe_text card' ''.tit'' [] = [] \<longrightarrow>
      hankyung_cards now (card' # cards) = hankyung_cards now cards"
    by (simp add: or_else_def)
  show ?thesis
    using n d h parse_page_document [of self document now] parse_page_titled [of self page now]
      crawl_titled [of self quote_plus w keyword pages]
      MultiSiteCrawler_crawl_titled [of m quote_plus worlds keyword pages]
    by blast
qed

theorem no_record_without_title_witness:
  "safe_text (sample_card ''a.news_tit'' (ascii '' '')) ''a.news_tit'' [] = []
   \<and> parse_page (new_crawler Naver True 8)
        (Inr (sample_page Naver [ascii '' '', ascii ''ok''])) (ascii ''now'') =
      Inr [\<lparr>title = ascii ''ok'', press = unknown_press, pub_time = [], url = [],
            source = ascii ''naver'', crawled_at = ascii ''now''\<rparr>]
   \<and> title \<lparr>title = ascii ''ok'', press = unknown_press, pub_time = [], url = [],
            source = ascii ''naver'', crawled_at = ascii ''now''\<rparr> \<noteq> []"
proof -
  let ?x = "\<lparr>title = ascii ''ok'', press = unknown_press, pub_time = [], url = [],
            source = ascii ''naver'', crawled_at = ascii ''now''\<rparr>"
  have s: "safe_text (sample_card ''a.news_tit'' (ascii '' '')) ''a.news_tit'' [] = []"
    by (simp add: safe_text_def find_element_def find_elements_def sample_card_def strip_def
        isspace_def ascii_def)
  have "naver_cards (ascii ''now'') (sample_card ''a.news_tit'' (ascii '' '')
          # [sample_card ''a.news_tit'' (ascii ''ok'')]) =
        naver_cards (ascii ''now'') [sample_card ''a.news_tit'' (ascii ''ok'')]"
    using s no_record_without_title [of "sample_card ''a.news_tit'' (ascii '' '')"
        "ascii ''now''" "[sample_card ''a.news_tit'' (ascii ''ok'')]"]
    by blast
  moreover have "naver_cards (ascii ''now'') [sample_card ''a.news_tit'' (ascii ''ok'')] = [?x]"
    by (simp add: safe_text_def safe_attr_def find_element_def find_elements_def
        get_attribute_def extract_time_def or_else_def sample_card_def strip_def isspace_def
        ascii_def Let_def)
  ultimately have p: "parse_page (new_crawler Naver True 8)
        (Inr (sample_page Naver [ascii '' '', ascii ''ok''])) (ascii ''now'') = Inr [?x]"
    by (simp add: parse_page_def new_crawler_def find_elements_def)
  have "\<forall>x\<in>set [?x]. title x \<noteq> []"
    using p no_record_without_title [where self = "new_crawler Naver True 8"
        and page = "Inr (sample_page Naver [ascii '' '', ascii ''ok''])" and now = "ascii ''now''"]
    by blast
  then have t: "title ?x \<noteq> []"
    by simp
  show ?thesis
    using s p t by blast
qed

text \<open>
  Claim C9 does not hold as stated: the press fallback is not the same for all three
  parsers. For a card with a title and no publisher element, \<^verbatim>\<open>HankyungCrawler\<close> stores
  the name of its own newspaper, where \<^verbatim>\<open>NaverCrawler\<close> stores the string for "unknown".
\<close>

theorem hankyung_press_fallback_differs:
  "map press (projr (parse_page (new_crawler Hankyung True 8)
       (Inr (sample_page Hankyung [ascii ''t''])) [])) = [[54620, 44397, 44221, 51228]]
   \<and> map press (projr (parse_page (new_crawler Naver True 8)
       (Inr (sample_page Naver [ascii ''t''])) [])) = [[50508, 32, 49688, 32, 50630, 51020]]"
  by (simp add: parse_page_def new_crawler_def find_elements_def find_element_def
      safe_text_def safe_attr_def get_attribute_def extract_time_def or_else_def
      sample_card_def strip_def isspace_def startswith_def ascii_def Let_def
      unknown_press_def hankyung_press_def)

text \<open>
  Claim C9, amended. When none of a parser's publisher selectors yields text, the
  record's press is a fixed string of that parser: the string for "unknown" in
  \<^verbatim>\<open>NaverCrawler\<close> and \<^verbatim>\<open>DaumCrawler\<close>, the newspaper's own name in
  \<^verbatim>\<open>HankyungCrawler\<close>; the two strings differ.
\<close>

theorem press_fallback_per_parser:
  "(safe_text card' ''a.news_tit'' [] \<noteq> [] \<and> safe_text card' ''a.info.press'' [] = []
      \<and> safe_text card' ''a.press'' [] = [] \<longrightarrow>
    map press (naver_cards now (card' # cards)) =
      unknown_press # map press (naver_cards now cards))
   \<and> (or_else (safe_text card' ''a.tit_main'' [])
         (or_else (safe_text card' ''a.link_txt'' [])
           (or_else (safe_text card' ''a.item-title'' []) (safe_text card' ''a.tit_g'' []))) \<noteq> []
      \<and> safe_text card' ''span.name_cp'' [] = [] \<and> safe_text card' ''span.txt_cp'' [] = []
      \<and> safe_text card' ''span.info_txt'' [] = [] \<longrightarrow>
    map press (daum_cards now (card' # cards)) =
      unknown_press # map press (daum_cards now cards))
   \<and> (or_else (safe_text card' ''.news-tit'' [])
         (or_else (safe_text card' ''h3.title a'' [])
           (or_else (safe_text card' ''a.tit'' []) (safe_text card' ''.tit'' []))) \<noteq> []
      \<and> safe_text card' ''span.author'' [] = [] \<and> safe_text card' ''span.reporter'' [] = [] \<longrightarrow>
    map press (hankyung_cards now (card' # cards)) =
      hankyung_press # map press (hankyung_cards now cards))
   \<and> unknown_press = [50508, 32, 49688, 32, 50630, 51020]
   \<and> hankyung_press = [54620, 44397, 44221, 51228]"
proof -
  have n: "safe_text card' ''a.news_tit'' [] \<noteq> [] \<and> safe_text card' ''a.info.press'' [] = []
      \<and> safe_text card' ''a.press'' [] = [] \<longrightarrow>
    map press (naver_cards now (card' # cards)) =
      unknown_press # map press (naver_cards now cards)"
    by (simp add: Let_def or_else_def)
  have d: "or_else (safe_text card' ''a.tit_main'' [])
         (or_else (safe_text card' ''a.link_txt'' [])
           (or_else (safe_text card' ''a.item-title'' []) (safe_text card' ''a.tit_g'' []))) \<noteq> []
      \<and> safe_text card' ''span.name_cp'' [] = [] \<and> safe_text card' ''span.txt_cp'' [] = []
      \<and> safe_text card' ''span.info_txt'' [] = [] \<longrightarrow>
    map press (daum_cards now (card' # cards)) =
      unknown_press # map press (daum_cards now cards)"
    by (simp add: Let_def or_else_def)
  have h: "or_else (safe_text card' ''.news-tit'' [])
         (or_else (safe_text card' ''h3.title a'' [])
           (or_else (safe_text card' ''a.tit'' []) (safe_text card' ''.tit'' []))) \<noteq> []
      \<and> safe_text card' ''span.author'' [] = [] \<and> safe_text card' ''span.reporter'' [] = [] \<longrightarrow>
    map press (hankyung_cards now (card' # cards)) =
      hankyung_press # map press (hankyung_cards now cards)"
    by (simp add: Let_def or_else_def)
  have u: "unknown_press = [50508, 32, 49688, 32, 50630, 51020]"
    by (simp add: unknown_press_def)
  have k: "hankyung_press = [54620, 44397, 44221, 51228]"
    by (simp add: hankyung_press_def)
  show ?thesis
    using n d h u k by blast
qed


lemma safe_text_sample_card:
  "safe_text (sample_card sel (ascii ''t'')) sel' [] = (if sel' = sel then ascii ''t'' else [])"
  by (simp add: safe_text_def find_element_def find_elements_def sample_card_def strip_def
      isspace_def ascii_def)

theorem press_fallback_per_parser_witness:
  "safe_text (sample_card ''a.news_tit'' (ascii ''t'')) ''a.news_tit'' [] \<noteq> []
   \<and> safe_text (sample_card ''a.news_tit'' (ascii ''t'')) ''a.info.press'' [] = []
   \<and> safe_text (sample_card ''a.news_tit'' (ascii ''t'')) ''a.press'' [] = []
   \<and> map press (naver_cards [] [sample_card ''a.news_tit'' (ascii ''t'')]) = [unknown_press]
   \<and> safe_text (sample_card ''a.tit_main'' (ascii ''t'')) ''a.tit_main'' [] \<noteq> []
   \<and> safe_text (sample_card ''a.tit_main'' (ascii ''t'')) ''span.name_cp'' [] = []
   \<and> safe_text (sample_card ''a.tit_main'' (ascii ''t'')) ''span.txt_cp'' [] = []
   \<and> safe_text (sample_card ''a.tit_main'' (ascii ''t'')) ''span.info_txt'' [] = []
   \<and> map press (daum_cards [] [sample_card ''a.tit_main'' (ascii ''t'')]) = [unknown_press]
   \<and> safe_text (sample_card ''.news-tit'' (ascii ''t'')) ''.news-tit'' [] \<noteq> []
   \<and> safe_text (sample_card ''.news-tit'' (ascii ''t'')) ''span.author'' [] = []
   \<and> safe_text (sample_card ''.news-tit'' (ascii ''t'')) ''span.reporter'' [] = []
   \<and> map press (hankyung_cards [] [sample_card ''.news-tit'' (ascii ''t'')]) = [hankyung_press]"
proof -
  let ?n = "sample_card ''a.news_tit'' (ascii ''t'')"
  let ?d = "sample_card ''a.tit_main'' (ascii ''t'')"
  let ?h = "sample_card ''.news-tit'' (ascii ''t'')"
  have a: "ascii ''t'' \<noteq> []"
    by (simp add: ascii_def)
  have n: "safe_text ?n ''a.news_tit'' [] \<noteq> []" "safe_text ?n ''a.info.press'' [] = []"
      "safe_text ?n ''a.press'' [] = []"
    using a by (simp_all add: safe_text_sample_card)
  have d: "safe_text ?d ''a.tit_main'' [] \<noteq> []" "safe_text ?d ''span.name_cp'' [] = []"
      "safe_text ?d ''span.txt_cp'' [] = []" "safe_text ?d ''span.info_txt'' [] = []"
    using a by (simp_all add: safe_text_sample_card)
  have h: "safe_text ?h ''.news-tit'' [] \<noteq> []" "safe_text ?h ''span.author'' [] = []"
      "safe_text ?h ''span.reporter'' [] = []"
    using a by (simp_all add: safe_text_sample_card)
  have dt: "or_else (safe_text ?d ''a.tit_main'' [])
         (or_else (safe_text ?d ''a.link_txt'' [])
           (or_else (safe_text ?d ''a.item-title'' []) (safe_text ?d ''a.tit_g'' []))) \<noteq> []"
    using d(1) by (simp add: or_else_def)
  have ht: "or_else (safe_text ?h ''.news-tit'' [])
         (or_else (safe_text ?h ''h3.title a'' [])
           (or_else (safe_text ?h ''a.tit'' []) (safe_text ?h ''.tit'' []))) \<noteq> []"
    using h(1) by (simp add: or_else_def)
  have rn: "map press (naver_cards [] (?n # [])) = unknown_press # map press (naver_cards [] [])"
    using n press_fallback_per_parser [of ?n "[]" "[]"] by blast
  have rd: "map press (daum_cards [] (?d # [])) = unknown_press # map press (daum_cards [] [])"
    using dt d press_fallback_per_parser [of ?d "[]" "[]"] by blast
  have rh: "map press (hankyung_cards [] (?h # [])) = hankyung_press # map press (hankyung_cards [] [])"
    using ht h press_fallback_per_parser [of ?h "[]" "[]"] by blast
  have rn': "map press (naver_cards [] [?n]) = [unknown_press]"
    by (rule trans [OF rn]) simp
  have rd': "map press (daum_cards [] [?d]) = [unknown_press]"
    by (rule trans [OF rd]) simp
  have rh': "map press (hankyung_cards [] [?h]) = [hankyung_press]"
    by (rule trans [OF rh]) simp
  show ?thesis
    using n d h rn' rd' rh' by blast
qed

section \<open>Properties of the search urls\<close>

text \<open>
  Claim C8. \<^verbatim>\<open>build_url\<close> depends on the class of the crawler, the keyword and the page
  only, not on the state of the instance. The Naver url carries
  \<open>start = (page - 1) * 10 + 1\<close>, which is 1, 11 and 21 for the pages 1, 2 and 3; the Daum
  and Hankyung urls carry the page number itself.
\<close>

theorem build_url_formula:
  "(site self = site self' \<longrightarrow>
      build_url self quote_plus keyword page = build_url self' quote_plus keyword page)
   \<and> (site self = Naver \<and> quote_plus keyword = Inr kw \<longrightarrow>
      build_url self quote_plus keyword page =
        Inr (ascii ''https://search.naver.com/search.naver?where=news&query='' @ kw
             @ ascii ''&start='' @ str_of_int ((page - 1) * 10 + 1) @ ascii ''&sort=1'')
      \<and> build_url self quote_plus keyword 1 =
        Inr (ascii ''https://search.naver.com/search.naver?where=news&query='' @ kw
             @ ascii ''&start=1&sort=1'')
      \<and> build_url self quote_plus keyword 2 =
        Inr (ascii ''https://search.naver.com/search.naver?where=news&query='' @ kw
             @ ascii ''&start=11&sort=1'')
      \<and> build_url self quote_plus keyword 3 =
        Inr (ascii ''https://search.naver.com/search.naver?where=news&query='' @ kw
             @ ascii ''&start=21&sort=1''))
   \<and> (site self = Daum \<and> quote_plus keyword = Inr kw \<longrightarrow>
      build_url self quote_plus keyword page =
        Inr (ascii ''https://search.daum.net/search?w=news&q='' @ kw
             @ ascii ''&p='' @ str_of_int page @ ascii ''&spacing=0&sort=recency''))
   \<and> (site self = Hankyung \<and> quote_plus keyword = Inr kw \<longrightarrow>
      build_url self quote_plus keyword page =
        Inr (ascii ''https://www.hankyung.com/search?search_str='' @ kw
             @ ascii ''&page='' @ str_of_int page @ ascii ''&type=news&sort=date''))"
proof -
  have p: "site self = site self' \<longrightarrow>
      build_url self quote_plus keyword page = build_url self' quote_plus keyword page"
    by (simp add: build_url_def)
  have s: "str_of_int 1 = ascii ''1''" "str_of_int 11 = ascii ''11''" "str_of_int 21 = ascii ''21''"
    by (simp_all add: str_of_int_def digits.simps ascii_def)
  have n: "site self = Naver \<and> quote_plus keyword = Inr kw \<longrightarrow>
      build_url self quote_plus keyword page =
        Inr (ascii ''https://search.naver.com/search.naver?where=news&query='' @ kw
             @ ascii ''&start='' @ str_of_int ((page - 1) * 10 + 1) @ ascii ''&sort=1'')" for page
    by (simp add: build_url_def Let_def)
  have n1: "site self = Naver \<and> quote_plus keyword = Inr kw \<longrightarrow>
      build_url self quote_plus keyword 1 =
        Inr (ascii ''https://search.naver.com/search.naver?where=news&query='' @ kw
             @ ascii ''&start=1&sort=1'')"
    using n [of 1] s by (simp add: ascii_def)
  have n2: "site self = Naver \<and> quote_plus keyword = Inr kw \<longrightarrow>
      build_url self quote_plus keyword 2 =
        Inr (ascii ''https://search.naver.com/search.naver?where=news&query='' @ kw
             @ ascii ''&start=11&sort=1'')"
    using n [of 2] s by (simp add: ascii_def)
  have n3: "site self = Naver \<and> quote_plus keyword = Inr kw \<longrightarrow>
      build_url self quote_plus keyword 3 =
        Inr (ascii ''https://search.naver.com/search.naver?where=news&query='' @ kw
             @ ascii ''&start=21&sort=1'')"
    using n [of 3] s by (simp add: ascii_def)
  have d: "site self = Daum \<and> quote_plus keyword = Inr kw \<longrightarrow>
      build_url self quote_plus keyword page =
        Inr (ascii ''https://search.daum.net/search?w=news&q='' @ kw
             @ ascii ''&p='' @ str_of_int page @ ascii ''&spacing=0&sort=recency'')"
    by (simp add: build_url_def)
  have h: "site self = Hankyung \<and> quote_plus keyword = Inr kw \<longrightarrow>
      build_url self quote_plus keyword page =
        Inr (ascii ''https://www.hankyung.com/search?search_str='' @ kw
             @ ascii ''&page='' @ str_of_int page @ ascii ''&type=news&sort=date'')"
    by (simp add: build_url_def)
  show ?thesis
    using p n [of page] n1 n2 n3 d h by blast
qed


theorem build_url_formula_witness:
  "site (new_crawler Naver True 8) = site (new_crawler Naver False 3)
   \<and> build_url (new_crawler Naver True 8) Inr (ascii ''ai'') 2 =
       build_url (new_crawler Naver False 3) Inr (ascii ''ai'') 2
   \<and> site (new_crawler Naver True 8) = Naver
   \<and> build_url (new_crawler Naver True 8) Inr (ascii ''ai'') 1 =
       Inr (ascii ''https://search.naver.com/search.naver?where=news&query=ai&start=1&sort=1'')
   \<and> build_url (new_crawler Naver True 8) Inr (ascii ''ai'') 2 =
       Inr (ascii ''https://search.naver.com/search.naver?where=news&query=ai&start=11&sort=1'')
   \<and> build_url (new_crawler Naver True 8) Inr (ascii ''ai'') 3 =
       Inr (ascii ''https://search.naver.com/search.naver?where=news&query=ai&start=21&sort=1'')
   \<and> site (new_crawler Daum True 8) = Daum
   \<and> build_url (new_crawler Daum True 8) Inr (ascii ''ai'') 2 =
       Inr (ascii ''https://search.daum.net/search?w=news&q=ai&p=2&spacing=0&sort=recency'')
   \<and> site (new_crawler Hankyung True 8) = Hankyung
   \<and> build_url (new_crawler Hankyung True 8) Inr (ascii ''ai'') 2 =
       Inr (ascii ''https://www.hankyung.com/search?search_str=ai&page=2&type=news&sort=date'')"
proof -
  let ?n = "new_crawler Naver True 8"
  let ?n' = "new_crawler Naver False 3"
  let ?d = "new_crawler Daum True 8"
  let ?h = "new_crawler Hankyung True 8"
  let ?kw = "ascii ''ai''"
  have q: "Inr ?kw = (Inr ?kw :: exn + ustring)"
    by simp
  have s: "site ?n = site ?n'" "site ?n = Naver" "site ?d = Daum" "site ?h = Hankyung"
    by (simp_all add: new_crawler_def)
  have two: "str_of_int 2 = ascii ''2''"
    by (simp add: str_of_int_def digits.simps ascii_def)
  have e: "build_url ?n Inr ?kw 2 = build_url ?n' Inr ?kw 2"
    using s(1) build_url_formula [of ?n ?n' Inr ?kw 2 ?kw] by blast
  have n1: "build_url ?n Inr ?kw 1 =
      Inr (ascii ''https://search.naver.com/search.naver?where=news&query='' @ ?kw
           @ ascii ''&start=1&sort=1'')"
    using s(2) q build_url_formula [of ?n ?n' Inr ?kw 2 ?kw] by blast
  have n2: "build_url ?n Inr ?kw 2 =
      Inr (ascii ''https://search.naver.com/search.naver?where=news&query='' @ ?kw
           @ ascii ''&start=11&sort=1'')"
    using s(2) q build_url_formula [of ?n ?n' Inr ?kw 2 ?kw] by blast
  have n3: "build_url ?n Inr ?kw 3 =
      Inr (ascii ''https://search.naver.com/search.naver?where=news&query='' @ ?kw
           @ ascii ''&start=21&sort=1'')"
    using s(2) q build_url_formula [of ?n ?n' Inr ?kw 2 ?kw] by blast
  have d2: "build_url ?d Inr ?kw 2 =
      Inr (ascii ''https://search.daum.net/search?w=news&q='' @ ?kw
           @ ascii ''&p='' @ str_of_int 2 @ ascii ''&spacing=0&sort=recency'')"
    using s(3) q build_url_formula [of ?d ?d Inr ?kw 2 ?kw] by blast
  have h2: "build_url ?h Inr ?kw 2 =
      Inr (ascii ''https://www.hankyung.com/search?search_str='' @ ?kw
           @ ascii ''&page='' @ str_of_int 2 @ ascii ''&type=news&sort=date'')"
    using s(4) q build_url_formula [of ?h ?h Inr ?kw 2 ?kw] by blast
  have n1': "build_url ?n Inr ?kw 1 =
       Inr (ascii ''https://search.naver.com/search.naver?where=news&query=ai&start=1&sort=1'')"
    by (rule trans [OF n1]) (simp add: ascii_def)
  have n2': "build_url ?n Inr ?kw 2 =
       Inr (ascii ''https://search.naver.com/search.naver?where=news&query=ai&start=11&sort=1'')"
    by (rule trans [OF n2]) (simp add: ascii_def)
  have n3': "build_url ?n Inr ?kw 3 =
       Inr (ascii ''https://search.naver.com/search.naver?where=news&query=ai&start=21&sort=1'')"
    by (rule trans [OF n3]) (simp add: ascii_def)
  have d2': "build_url ?d Inr ?kw 2 =
       Inr (ascii ''https://search.daum.net/search?w=news&q=ai&p=2&spacing=0&sort=recency'')"
    by (rule trans [OF d2]) (simp add: two, simp add: ascii_def)
  have h2': "build_url ?h Inr ?kw 2 =
       Inr (ascii ''https://www.hankyung.com/search?search_str=ai&page=2&type=news&sort=date'')"
    by (rule trans [OF h2]) (simp add: two, simp add: ascii_def)
  show ?thesis
    using s e n1' n2' n3' d2' h2' by blast
qed

section \<open>Properties of the registry\<close>

lemma registry_keys:
  "map fst REGISTRY = [ascii ''naver'', ascii ''daum'', ascii ''hankyung'']"
  by (simp add: REGISTRY_def)

lemma registry_lookup:
  "k \<in> {ascii ''naver'', ascii ''daum'', ascii ''hankyung''} \<Longrightarrow>
   \<exists>cls. map_of REGISTRY k = Some cls \<and> SITE_KEY cls = k"
  by (auto simp add: REGISTRY_def ascii_def)

lemma make_crawlers_known:
  "set ks \<subseteq> {ascii ''naver'', ascii ''daum'', ascii ''hankyung''} \<Longrightarrow>
   \<exists>cs. make_crawlers ks hl ws = Inr cs \<and> map (\<lambda>c. SITE_KEY (site c)) cs = ks"
proof (induction ks)
  case Nil
  show ?case by simp
next
  case (Cons k ks)
  obtain cls where c: "map_of REGISTRY k = Some cls" "SITE_KEY cls = k"
    using Cons.prems registry_lookup [of k] by auto
  obtain cs where r: "make_crawlers ks hl ws = Inr cs" "map (\<lambda>c. SITE_KEY (site c)) cs = ks"
    using Cons by auto
  show ?case
    by (simp add: c r new_crawler_def)
qed

lemma make_crawlers_all:
  "make_crawlers [ascii ''naver'', ascii ''daum'', ascii ''hankyung''] hl ws =
   Inr [new_crawler Naver hl ws, new_crawler Daum hl ws, new_crawler Hankyung hl ws]"
  by (simp add: REGISTRY_def ascii_def)

text \<open>
  Claim C3. Without site keys (\<open>None\<close> or the empty list) the manager gets the three
  registered sites. With a key that the registry lacks, construction raises the
  \<^verbatim>\<open>ValueError\<close> that carries exactly the unknown keys, and the pipeline stops there
  without any event: no driver is built and nothing is navigated to. When all keys are
  registered, construction succeeds with one crawler per requested key, in order.
\<close>

theorem site_keys_resolved:
  "(sites = None \<or> sites = Some [] \<longrightarrow>
      MultiSiteCrawler_init sites hl ws =
        Inr \<lparr>crawlers = [new_crawler Naver hl ws, new_crawler Daum hl ws,
                         new_crawler Hankyung hl ws]\<rparr>)
   \<and> (sites = Some ks \<and> ks \<noteq> []
        \<and> \<not> set ks \<subseteq> {ascii ''naver'', ascii ''daum'', ascii ''hankyung''} \<longrightarrow>
      MultiSiteCrawler_init sites hl ws =
        Inl (ValueError (set ks - {ascii ''naver'', ascii ''daum'', ascii ''hankyung''})
               [ascii ''naver'', ascii ''daum'', ascii ''hankyung''])
      \<and> run_pipeline_crawl sites quote_plus worlds keyword pages =
        (Inl (ValueError (set ks - {ascii ''naver'', ascii ''daum'', ascii ''hankyung''})
                [ascii ''naver'', ascii ''daum'', ascii ''hankyung'']), []))
   \<and> (sites = Some ks \<and> ks \<noteq> []
        \<and> set ks \<subseteq> {ascii ''naver'', ascii ''daum'', ascii ''hankyung''} \<longrightarrow>
      (\<exists>m. MultiSiteCrawler_init sites hl ws = Inr m
           \<and> map (\<lambda>c. SITE_KEY (site c)) (crawlers m) = ks))"
proof -
  let ?K = "{ascii ''naver'', ascii ''daum'', ascii ''hankyung''}"
  have k: "set (map fst REGISTRY) = ?K"
    by (simp add: registry_keys)
  have a: "sites = None \<or> sites = Some [] \<longrightarrow>
      MultiSiteCrawler_init sites hl ws =
        Inr \<lparr>crawlers = [new_crawler Naver hl ws, new_crawler Daum hl ws,
                         new_crawler Hankyung hl ws]\<rparr>"
    unfolding MultiSiteCrawler_init_def Let_def registry_keys
    by (auto simp add: make_crawlers_all simp del: make_crawlers.simps)
  have u: "sites = Some ks \<and> ks \<noteq> [] \<and> \<not> set ks \<subseteq> ?K \<longrightarrow>
      MultiSiteCrawler_init sites hl' ws' =
        Inl (ValueError (set ks - ?K) [ascii ''naver'', ascii ''daum'', ascii ''hankyung''])"
    for hl' ws'
    unfolding MultiSiteCrawler_init_def Let_def registry_keys
    by auto
  have p: "sites = Some ks \<and> ks \<noteq> [] \<and> \<not> set ks \<subseteq> ?K \<longrightarrow>
      run_pipeline_crawl sites quote_plus worlds keyword pages =
        (Inl (ValueError (set ks - ?K) [ascii ''naver'', ascii ''daum'', ascii ''hankyung'']), [])"
    using u [of True 8] by (simp add: run_pipeline_crawl_def)
  have g: "sites = Some ks \<and> ks \<noteq> [] \<and> set ks \<subseteq> ?K \<longrightarrow>
      (\<exists>m. MultiSiteCrawler_init sites hl ws = Inr m
           \<and> map (\<lambda>c. SITE_KEY (site c)) (crawlers m) = ks)"
  proof
    assume h: "sites = Some ks \<and> ks \<noteq> [] \<and> set ks \<subseteq> ?K"
    then obtain cs where c: "make_crawlers ks hl ws = Inr cs"
        "map (\<lambda>c. SITE_KEY (site c)) cs = ks"
      using make_crawlers_known [of ks hl ws] by auto
    have e: "set ks - ?K = {}"
      using h by auto
    have "MultiSiteCrawler_init sites hl ws = Inr \<lparr>crawlers = cs\<rparr>"
      unfolding MultiSiteCrawler_init_def Let_def registry_keys
      using h e c by simp
    then show "\<exists>m. MultiSiteCrawler_init sites hl ws = Inr m
           \<and> map (\<lambda>c. SITE_KEY (site c)) (crawlers m) = ks"
      using c by simp
  qed
  show ?thesis
    using a u [of hl ws] p g by blast
qed


theorem site_keys_resolved_witness:
  "MultiSiteCrawler_init None True 8 =
     Inr \<lparr>crawlers = [new_crawler Naver True 8, new_crawler Daum True 8,
                      new_crawler Hankyung True 8]\<rparr>
   \<and> ascii ''bbc'' \<notin> {ascii ''naver'', ascii ''daum'', ascii ''hankyung''}
   \<and> MultiSiteCrawler_init (Some [ascii ''naver'', ascii ''bbc'']) True 8 =
     Inl (ValueError {ascii ''bbc''} [ascii ''naver'', ascii ''daum'', ascii ''hankyung''])
   \<and> run_pipeline_crawl (Some [ascii ''naver'', ascii ''bbc'']) Inr sample_worlds (ascii ''ai'') 3 =
     (Inl (ValueError {ascii ''bbc''} [ascii ''naver'', ascii ''daum'', ascii ''hankyung'']), [])
   \<and> set [ascii ''hankyung'', ascii ''naver''] \<subseteq> {ascii ''naver'', ascii ''daum'', ascii ''hankyung''}
   \<and> map (\<lambda>c. SITE_KEY (site c))
       (crawlers (projr (MultiSiteCrawler_init (Some [ascii ''hankyung'', ascii ''naver'']) True 8))) =
     [ascii ''hankyung'', ascii ''naver'']"
proof -
  let ?K = "{ascii ''naver'', ascii ''daum'', ascii ''hankyung''}"
  let ?bad = "[ascii ''naver'', ascii ''bbc'']"
  let ?good = "[ascii ''hankyung'', ascii ''naver'']"
  have a: "MultiSiteCrawler_init None True 8 =
     Inr \<lparr>crawlers = [new_crawler Naver True 8, new_crawler Daum True 8,
                      new_crawler Hankyung True 8]\<rparr>"
    using site_keys_resolved [of None True 8 ?bad Inr sample_worlds "ascii ''ai''" 3] by blast
  have n: "ascii ''bbc'' \<notin> ?K"
    by (simp add: ascii_def)
  have b: "?bad \<noteq> []" "\<not> set ?bad \<subseteq> ?K"
    using n by simp_all
  have d: "set ?bad - ?K = {ascii ''bbc''}"
    using n by auto
  have u: "MultiSiteCrawler_init (Some ?bad) True 8 =
        Inl (ValueError (set ?bad - ?K) [ascii ''naver'', ascii ''daum'', ascii ''hankyung''])
      \<and> run_pipeline_crawl (Some ?bad) Inr sample_worlds (ascii ''ai'') 3 =
        (Inl (ValueError (set ?bad - ?K) [ascii ''naver'', ascii ''daum'', ascii ''hankyung'']), [])"
    using b site_keys_resolved [of "Some ?bad" True 8 ?bad Inr sample_worlds "ascii ''ai''" 3]
    by blast
  have g: "?good \<noteq> []" "set ?good \<subseteq> ?K"
    by simp_all
  have "\<exists>m. MultiSiteCrawler_init (Some ?good) True 8 = Inr m
           \<and> map (\<lambda>c. SITE_KEY (site c)) (crawlers m) = ?good"
    using g site_keys_resolved [of "Some ?good" True 8 ?good Inr sample_worlds "ascii ''ai''" 3]
    by blast
  then have k: "map (\<lambda>c. SITE_KEY (site c))
       (crawlers (projr (MultiSiteCrawler_init (Some ?good) True 8))) = ?good"
    by auto
  show ?thesis
    using a n u [unfolded d] g(2) k by blast
qed

end
